(* ===== verification/Prelude.thy ===== *)
theory Prelude
  imports Main "HOL-Library.Word"
begin

text \<open>
  Shared vocabulary of the development: the types a Go program is made of (byte slices,
  strings, fixed-width integers), big-endian reads as \<^verbatim>\<open>encoding/binary\<close> does them, and
  the few generic facts on lists, maps and words that several components use. A Go
  \<^verbatim>\<open>string\<close> is a sequence of bytes, hence \<^typ>\<open>string\<close> (a list of 8-bit characters); a
  \<^verbatim>\<open>[]byte\<close> is a list of \<^typ>\<open>8 word\<close>.
\<close>

unbundle bit_operations_syntax

named_theorems go_simps "unfolding rules of the standard-library functions"
named_theorems step_defs "definitions of the state-changing operations"

subsection \<open>Types\<close>

type_synonym u8 = "8 word"
type_synonym u16 = "16 word"
type_synonym u32 = "32 word"
type_synonym i64 = "64 word"
type_synonym bytes = "u8 list"

text \<open>\<^verbatim>\<open>string(data)\<close> and \<^verbatim>\<open>[]byte(s)\<close>: the same bytes under the other type.\<close>

definition str_of :: "bytes \<Rightarrow> string" where
  "str_of bs = map (\<lambda>b. char_of (unat b)) bs"

definition bytes_of :: "string \<Rightarrow> bytes" where
  "bytes_of s = map (\<lambda>c. word_of_nat (of_char c)) s"

lemma length_str_of [simp]: "length (str_of bs) = length bs"
  by (simp add: str_of_def)

lemma length_bytes_of [simp]: "length (bytes_of s) = length s"
  by (simp add: bytes_of_def)

lemma of_char_less [simp]: "(of_char c :: nat) < 256"
  using nat_of_char_less_256 [of c] by simp

lemma bytes_of_str_of [simp]: "bytes_of (str_of bs) = bs"
proof -
  have "unat (b :: u8) < 256" for b
    using unsigned_less [where ?'a = nat and w = b] by simp
  then show ?thesis
    by (simp add: bytes_of_def str_of_def comp_def)
qed

lemma str_of_bytes_of [simp]: "str_of (bytes_of s) = s"
proof -
  have "unat (word_of_nat (of_char c) :: u8) = of_char c" for c :: char
    using of_char_less [of c] by (simp add: unat_of_nat)
  then show ?thesis
    by (simp add: bytes_of_def str_of_def comp_def map_idI)
qed

lemma str_of_append [simp]: "str_of (a @ b) = str_of a @ str_of b"
  by (simp add: str_of_def)

lemma str_of_Nil [simp]: "str_of [] = []"
  by (simp add: str_of_def)

lemma bytes_of_Nil [simp]: "bytes_of [] = []"
  by (simp add: bytes_of_def)

lemma bytes_of_append [simp]: "bytes_of (a @ b) = bytes_of a @ bytes_of b"
  by (simp add: bytes_of_def)

subsection \<open>Big-endian integers\<close>

text \<open>
  \<^verbatim>\<open>binary.BigEndian.Uint16(b)\<close> and \<^verbatim>\<open>Uint32\<close> read the first two (four) bytes. Both panic
  on a shorter slice; every caller checks the length first, which the lemmas on the
  decoders record.
\<close>

definition be16 :: "bytes \<Rightarrow> u16" where
  "be16 b = push_bit 8 (ucast (b ! 0)) OR ucast (b ! 1)"

definition be32 :: "bytes \<Rightarrow> u32" where
  "be32 b = push_bit 24 (ucast (b ! 0)) OR push_bit 16 (ucast (b ! 1))
     OR push_bit 8 (ucast (b ! 2)) OR ucast (b ! 3)"

definition put16 :: "u16 \<Rightarrow> bytes" where
  "put16 w = [ucast (drop_bit 8 w), ucast w]"

definition put32 :: "u32 \<Rightarrow> bytes" where
  "put32 w = [ucast (drop_bit 24 w), ucast (drop_bit 16 w), ucast (drop_bit 8 w), ucast w]"

lemma length_put16 [simp]: "length (put16 w) = 2"
  by (simp add: put16_def)

lemma length_put32 [simp]: "length (put32 w) = 4"
  by (simp add: put32_def)

lemma be16_put16 [simp]: "be16 (put16 w @ rest) = w"
  by (rule bit_word_eqI) (auto simp: be16_def put16_def bit_simps)

lemma be16_put16' [simp]: "be16 (put16 w) = w"
  using be16_put16 [of w "[]"] by simp

lemma be32_put32 [simp]: "be32 (put32 w @ rest) = w"
proof (rule bit_word_eqI)
  fix n
  assume "n < LENGTH(32)"
  then consider "n < 8" | "8 \<le> n \<and> n < 16" | "16 \<le> n \<and> n < 24" | "24 \<le> n \<and> n < 32"
    by fastforce
  then show "bit (be32 (put32 w @ rest)) n = bit w n"
    by cases (auto simp: be32_def put32_def bit_simps)
qed

lemma be32_put32' [simp]: "be32 (put32 w) = w"
  using be32_put32 [of w "[]"] by simp

subsection \<open>Lists\<close>

lemma take_is_prefix_append: "take (length p) (p @ s) = p"
  by simp

lemma nth_append_less: "i < length a \<Longrightarrow> (a @ b) ! i = a ! i"
  by (simp add: nth_append)

lemma take_append_le: "n \<le> length a \<Longrightarrow> take n (a @ b) = take n a"
  by simp

lemma drop_append_le: "n \<le> length a \<Longrightarrow> drop n (a @ b) = drop n a @ b"
  by simp

text \<open>The last \<open>n\<close> elements, newest first: what a bounded log shows.\<close>

definition newest :: "nat \<Rightarrow> 'a list \<Rightarrow> 'a list" where
  "newest n xs = take n (rev xs)"

lemma length_newest: "length (newest n xs) = min n (length xs)"
  by (simp add: newest_def)

lemma newest_snoc: "newest (Suc n) (xs @ [x]) = x # newest n xs"
  by (simp add: newest_def)

lemma nth_newest: "i < n \<Longrightarrow> i < length xs \<Longrightarrow> newest n xs ! i = xs ! (length xs - 1 - i)"
  by (simp add: newest_def rev_nth)

lemma unat_word_of_nat: "n < 2 ^ LENGTH('a) \<Longrightarrow> unat (word_of_nat n :: 'a::len word) = n"
  by (simp add: unat_of_nat)

lemma unat_u16: "n < 65536 \<Longrightarrow> unat (word_of_nat n :: u16) = n"
  by (rule unat_word_of_nat) simp

end
