(* ===== verification/Utf8.thy ===== *)
theory Utf8
  imports Prelude
begin

text \<open>
  UTF-8 as \<^verbatim>\<open>unicode/utf8\<close> reads and writes it. A \<^verbatim>\<open>for _, c := range s\<close> loop visits the
  runes of \<open>s\<close> (\<open>runes\<close>): an invalid byte is the replacement rune U+FFFD of width one.
  \<open>encode_rune\<close> is \<^verbatim>\<open>WriteRune\<close>. The simple case tables of the Unicode standard
  (\<^verbatim>\<open>unicode.ToLower\<close>, \<^verbatim>\<open>ToUpper\<close>, \<^verbatim>\<open>SimpleFold\<close>) are data the program does not hold: they are
  the fields of \<open>unicode\<close>, consulted for runes above ASCII only.
\<close>

abbreviation byte :: "char \<Rightarrow> nat" where
  "byte c \<equiv> of_char c"

abbreviation rune_error :: nat where
  "rune_error \<equiv> 0xFFFD"

definition cont_byte :: "char \<Rightarrow> bool" where
  "cont_byte c \<longleftrightarrow> 0x80 \<le> byte c \<and> byte c \<le> 0xBF"

definition lo_second :: "nat \<Rightarrow> nat" where
  "lo_second b = (if b = 0xE0 then 0xA0 else if b = 0xF0 then 0x90 else 0x80)"

definition hi_second :: "nat \<Rightarrow> nat" where
  "hi_second b = (if b = 0xED then 0x9F else if b = 0xF4 then 0x8F else 0xBF)"

definition second_ok :: "nat \<Rightarrow> char \<Rightarrow> bool" where
  "second_ok b c \<longleftrightarrow> lo_second b \<le> byte c \<and> byte c \<le> hi_second b"

text \<open>\<^verbatim>\<open>utf8.DecodeRuneInString\<close>: the rune and its width.\<close>

definition decode_rune :: "string \<Rightarrow> nat \<times> nat" where
  "decode_rune s = (case s of
     [] \<Rightarrow> (rune_error, 0)
   | c0 # t \<Rightarrow>
       (let b = byte c0 in
        if b < 0x80 then (b, 1)
        else if 0xC2 \<le> b \<and> b \<le> 0xDF then
          (case t of
             c1 # _ \<Rightarrow> if cont_byte c1 then ((b - 0xC0) * 64 + (byte c1 - 0x80), 2)
                       else (rune_error, 1)
           | [] \<Rightarrow> (rune_error, 1))
        else if 0xE0 \<le> b \<and> b \<le> 0xEF then
          (case t of
             c1 # c2 # _ \<Rightarrow>
               if second_ok b c1 \<and> cont_byte c2
               then ((b - 0xE0) * 4096 + (byte c1 - 0x80) * 64 + (byte c2 - 0x80), 3)
               else (rune_error, 1)
           | _ \<Rightarrow> (rune_error, 1))
        else if 0xF0 \<le> b \<and> b \<le> 0xF4 then
          (case t of
             c1 # c2 # c3 # _ \<Rightarrow>
               if second_ok b c1 \<and> cont_byte c2 \<and> cont_byte c3
               then ((b - 0xF0) * 262144 + (byte c1 - 0x80) * 4096
                      + (byte c2 - 0x80) * 64 + (byte c3 - 0x80), 4)
               else (rune_error, 1)
           | _ \<Rightarrow> (rune_error, 1))
        else (rune_error, 1)))"

definition valid_rune :: "nat \<Rightarrow> bool" where
  "valid_rune r \<longleftrightarrow> r < 0xD800 \<or> 0xE000 \<le> r \<and> r \<le> 0x10FFFF"

text \<open>\<^verbatim>\<open>utf8.AppendRune\<close>: surrogates and values above U+10FFFF are written as U+FFFD.\<close>

definition encode_rune :: "nat \<Rightarrow> string" where
  "encode_rune r =
     (if r < 0x80 then [char_of r]
      else if r < 0x800 then [char_of (0xC0 + r div 64), char_of (0x80 + r mod 64)]
      else if \<not> valid_rune r then [CHR 0xEF, CHR 0xBF, CHR 0xBD]
      else if r < 0x10000 then
        [char_of (0xE0 + r div 4096), char_of (0x80 + r div 64 mod 64), char_of (0x80 + r mod 64)]
      else
        [char_of (0xF0 + r div 262144), char_of (0x80 + r div 4096 mod 64),
         char_of (0x80 + r div 64 mod 64), char_of (0x80 + r mod 64)])"

lemma decode_rune_width:
  "s \<noteq> [] \<Longrightarrow> 0 < snd (decode_rune s) \<and> snd (decode_rune s) \<le> length s"
  by (auto simp: decode_rune_def Let_def split: list.splits)

lemma decode_rune_ascii [simp]: "byte c < 0x80 \<Longrightarrow> decode_rune (c # s) = (byte c, 1)"
  by (simp add: decode_rune_def)

function runes :: "string \<Rightarrow> nat list" where
  "runes s = (if s = [] then [] else fst (decode_rune s) # runes (drop (snd (decode_rune s)) s))"
  by pat_completeness auto
termination
  using decode_rune_width by (relation "measure length") auto

declare runes.simps [simp del]

lemma runes_Nil [simp]: "runes [] = []"
  by (simp add: runes.simps)

lemma runes_Cons:
  "runes (c # s) = fst (decode_rune (c # s)) # runes (drop (snd (decode_rune (c # s))) (c # s))"
  by (subst runes.simps) simp

definition ascii :: "string \<Rightarrow> bool" where
  "ascii s \<longleftrightarrow> (\<forall>c \<in> set s. byte c < 0x80)"

lemma ascii_simps [simp]:
  "ascii []" "ascii (c # s) \<longleftrightarrow> byte c < 0x80 \<and> ascii s" "ascii (s @ t) \<longleftrightarrow> ascii s \<and> ascii t"
  by (auto simp: ascii_def)

lemma runes_ascii: "ascii s \<Longrightarrow> runes s = map byte s"
  by (induction s) (auto simp: runes_Cons)

subsection \<open>Encoding inverts decoding\<close>

lemma encode_rune_ascii [simp]: "r < 0x80 \<Longrightarrow> encode_rune r = [char_of r]"
  by (simp add: encode_rune_def)

lemma encode_rune_not_Nil [simp]: "encode_rune r \<noteq> []"
  by (simp add: encode_rune_def)

text \<open>Decoding a two-, three- or four-byte sequence from its six-bit groups.\<close>

lemma decode_rune2:
  assumes "2 \<le> a" "a < 32" "b < 64"
  shows "decode_rune (char_of (0xC0 + a) # char_of (0x80 + b) # s) = (a * 64 + b, 2)"
  using assms by (simp add: decode_rune_def cont_byte_def Let_def)

lemma decode_rune3:
  assumes "a < 16" "b < 64" "c < 64" "a = 0 \<Longrightarrow> 32 \<le> b" "a = 13 \<Longrightarrow> b < 32"
  shows "decode_rune (char_of (0xE0 + a) # char_of (0x80 + b) # char_of (0x80 + c) # s)
    = (a * 4096 + b * 64 + c, 3)"
  using assms
  by (auto simp: decode_rune_def cont_byte_def second_ok_def lo_second_def hi_second_def Let_def)

lemma decode_rune4:
  assumes "a \<le> 4" "b < 64" "c < 64" "d < 64" "a = 0 \<Longrightarrow> 16 \<le> b" "a = 4 \<Longrightarrow> b < 16"
  shows "decode_rune (char_of (0xF0 + a) # char_of (0x80 + b) # char_of (0x80 + c)
      # char_of (0x80 + d) # s) = (a * 262144 + b * 4096 + c * 64 + d, 4)"
  using assms
  by (auto simp: decode_rune_def cont_byte_def second_ok_def lo_second_def hi_second_def Let_def)

lemma decode_encode2:
  assumes "0x80 \<le> r" "r < 0x800"
  shows "decode_rune (encode_rune r @ s) = (r, length (encode_rune r))"
proof -
  have "2 \<le> r div 64" "r div 64 < 32" "r mod 64 < 64" using assms by auto
  note decode_rune2 [OF this, of s]
  then show ?thesis using assms by (simp add: encode_rune_def)
qed

lemma decode_encode3:
  assumes "0x800 \<le> r" "r < 0x10000" "valid_rune r"
  shows "decode_rune (encode_rune r @ s) = (r, length (encode_rune r))"
proof -
  let ?a = "r div 4096" and ?b = "r div 64 mod 64" and ?c = "r mod 64"
  have bounds: "?a < 16" "?b < 64" "?c < 64" using assms by auto
  have "?a * 64 + ?b = r div 64"
    using div_mult_mod_eq [of "r div 64" 64] by (simp add: div_mult2_eq [symmetric])
  with div_mult_mod_eq [of r 64] have eq: "?a * 4096 + ?b * 64 + ?c = r" by linarith
  have lo: "?a = 0 \<Longrightarrow> 32 \<le> ?b" using assms(1) eq bounds by linarith
  have hi: "?a = 13 \<Longrightarrow> ?b < 32" using assms(3) eq bounds unfolding valid_rune_def by linarith
  have enc: "encode_rune r = [char_of (0xE0 + ?a), char_of (0x80 + ?b), char_of (0x80 + ?c)]"
    using assms unfolding encode_rune_def by simp
  show ?thesis
    unfolding enc using decode_rune3 [OF bounds lo hi, of s] eq by (simp del: div_mult2_eq)
qed

lemma decode_encode4:
  assumes "0x10000 \<le> r" "valid_rune r"
  shows "decode_rune (encode_rune r @ s) = (r, length (encode_rune r))"
proof -
  let ?a = "r div 262144" and ?b = "r div 4096 mod 64" and ?c = "r div 64 mod 64" and ?d = "r mod 64"
  have r: "r \<le> 0x10FFFF" using assms by (auto simp: valid_rune_def)
  have bounds: "?a \<le> 4" "?b < 64" "?c < 64" "?d < 64" using r by auto
  have "?a * 64 + ?b = r div 4096"
    using div_mult_mod_eq [of "r div 4096" 64] by (simp add: div_mult2_eq [symmetric])
  moreover have "r div 4096 * 64 + ?c = r div 64"
    using div_mult_mod_eq [of "r div 64" 64] by (simp add: div_mult2_eq [symmetric])
  ultimately have eq: "?a * 262144 + ?b * 4096 + ?c * 64 + ?d = r"
    using div_mult_mod_eq [of r 64] by linarith
  have lo: "?a = 0 \<Longrightarrow> 16 \<le> ?b" using assms(1) eq bounds by linarith
  have hi: "?a = 4 \<Longrightarrow> ?b < 16" using r eq bounds by linarith
  have enc: "encode_rune r =
      [char_of (0xF0 + ?a), char_of (0x80 + ?b), char_of (0x80 + ?c), char_of (0x80 + ?d)]"
    using assms unfolding encode_rune_def by simp
  show ?thesis
    unfolding enc using decode_rune4 [OF bounds lo hi, of s] eq by (simp del: div_mult2_eq)
qed

lemma decode_encode:
  assumes "valid_rune r"
  shows "decode_rune (encode_rune r @ s) = (r, length (encode_rune r))"
proof -
  consider "r < 0x80" | "0x80 \<le> r" "r < 0x800" | "0x800 \<le> r" "r < 0x10000" | "0x10000 \<le> r"
    by linarith
  then show ?thesis
    using assms decode_encode2 decode_encode3 decode_encode4 by cases auto
qed

lemma runes_encode_append: "valid_rune r \<Longrightarrow> runes (encode_rune r @ s) = r # runes s"
  by (subst runes.simps) (simp add: decode_encode)

lemma cont_bounds: "cont_byte c \<Longrightarrow> 128 \<le> byte c \<and> byte c \<le> 191"
  by (simp add: cont_byte_def)

lemma valid_rune_error [simp]: "valid_rune rune_error"
  by (simp add: valid_rune_def)

lemma decode_rune_valid: "valid_rune (fst (decode_rune s))"
proof -
  have two: "valid_rune ((b - 0xC0) * 64 + (c1 - 0x80))"
    if "0xC2 \<le> b" "b \<le> 0xDF" "128 \<le> c1" "c1 \<le> 191" for b c1 :: nat
    using that unfolding valid_rune_def by linarith
  have three: "valid_rune ((b - 0xE0) * 4096 + (byte c1 - 0x80) * 64 + (c2 - 0x80))"
    if "0xE0 \<le> b" "b \<le> 0xEF" "second_ok b c1" "128 \<le> c2" "c2 \<le> 191" for b c2 :: nat and c1
    using that unfolding valid_rune_def second_ok_def lo_second_def hi_second_def
    by (cases "b = 0xED"; cases "b < 0xED") (auto split: if_splits)
  have four: "valid_rune ((b - 0xF0) * 262144 + (byte c1 - 0x80) * 4096 + (c2 - 0x80) * 64 + (c3 - 0x80))"
    if "0xF0 \<le> b" "b \<le> 0xF4" "second_ok b c1" "128 \<le> c2" "c2 \<le> 191" "128 \<le> c3" "c3 \<le> 191"
    for b c2 c3 :: nat and c1
    using that unfolding valid_rune_def second_ok_def lo_second_def hi_second_def
    by (cases "b = 0xF4") (auto split: if_splits)
  have small: "valid_rune b" if "b < 128" for b :: nat
    using that by (simp add: valid_rune_def)
  show ?thesis
    unfolding decode_rune_def Let_def
    by (auto simp: small simp del: add_diff_assoc add_diff_assoc2 diff_diff_left
        split: list.splits intro!: two three four dest!: cont_bounds)
qed

subsection \<open>The string a range loop rewrites\<close>

definition sanitize :: "string \<Rightarrow> string" where
  "sanitize s = concat (map encode_rune (runes s))"

lemma sanitize_ascii: "ascii s \<Longrightarrow> sanitize s = s"
  by (simp add: sanitize_def runes_ascii, induction s) auto

lemma runes_valid: "r \<in> set (runes s) \<Longrightarrow> valid_rune r"
proof (induction s rule: runes.induct)
  case (1 s)
  then show ?case
    by (cases "s = []") (auto simp: runes.simps [of s] decode_rune_valid)
qed

lemma runes_concat_encode: "list_all valid_rune rs \<Longrightarrow> runes (concat (map encode_rune rs)) = rs"
  by (induction rs) (auto simp: runes_encode_append)

lemma runes_sanitize: "runes (sanitize s) = runes s"
  by (simp add: sanitize_def runes_concat_encode list_all_iff runes_valid)

lemma sanitize_idem [simp]: "sanitize (sanitize s) = sanitize s"
  by (simp add: sanitize_def [of "sanitize s"] runes_sanitize) (simp add: sanitize_def)

subsection \<open>Case mapping\<close>

record unicode =
  rune_lower :: "nat \<Rightarrow> nat"
  rune_upper :: "nat \<Rightarrow> nat"
  rune_fold :: "nat \<Rightarrow> nat \<Rightarrow> bool"

definition lower_rune :: "unicode \<Rightarrow> nat \<Rightarrow> nat" where
  "lower_rune u r = (if r < 0x80 then (if 65 \<le> r \<and> r \<le> 90 then r + 32 else r) else rune_lower u r)"

definition upper_rune :: "unicode \<Rightarrow> nat \<Rightarrow> nat" where
  "upper_rune u r = (if r < 0x80 then (if 97 \<le> r \<and> r \<le> 122 then r - 32 else r) else rune_upper u r)"

text \<open>\<^verbatim>\<open>strings.ToLower\<close>, \<^verbatim>\<open>ToUpper\<close> and \<^verbatim>\<open>EqualFold\<close>.\<close>

definition to_lower :: "unicode \<Rightarrow> string \<Rightarrow> string" where
  "to_lower u s = concat (map (\<lambda>r. encode_rune (lower_rune u r)) (runes s))"

definition to_upper :: "unicode \<Rightarrow> string \<Rightarrow> string" where
  "to_upper u s = concat (map (\<lambda>r. encode_rune (upper_rune u r)) (runes s))"

definition fold_rune :: "unicode \<Rightarrow> nat \<Rightarrow> nat \<Rightarrow> bool" where
  "fold_rune u a b \<longleftrightarrow> a = b \<or>
     (if a < 0x80 \<and> b < 0x80 then lower_rune u a = lower_rune u b else rune_fold u a b)"

definition equal_fold :: "unicode \<Rightarrow> string \<Rightarrow> string \<Rightarrow> bool" where
  "equal_fold u s t \<longleftrightarrow> list_all2 (fold_rune u) (runes s) (runes t)"

text \<open>The ASCII letters, byte by byte.\<close>

definition lower_char :: "char \<Rightarrow> char" where
  "lower_char c = (if 65 \<le> byte c \<and> byte c \<le> 90 then char_of (byte c + 32) else c)"

definition upper_char :: "char \<Rightarrow> char" where
  "upper_char c = (if 97 \<le> byte c \<and> byte c \<le> 122 then char_of (byte c - 32) else c)"

lemma to_lower_ascii: "ascii s \<Longrightarrow> to_lower u s = map lower_char s"
  by (simp add: to_lower_def runes_ascii, induction s)
    (auto simp: lower_rune_def lower_char_def)

lemma to_upper_ascii: "ascii s \<Longrightarrow> to_upper u s = map upper_char s"
  by (simp add: to_upper_def runes_ascii, induction s)
    (auto simp: upper_rune_def upper_char_def)

lemma equal_fold_refl [simp]: "equal_fold u s s"
  by (simp add: equal_fold_def fold_rune_def list_all2_refl)

text \<open>Tables under which only ASCII letters have case, for evaluation on concrete input.\<close>

definition ascii_tables :: unicode where
  "ascii_tables = \<lparr>rune_lower = (\<lambda>r. r), rune_upper = (\<lambda>r. r), rune_fold = (=)\<rparr>"

end
