(* ===== verification/GoStrings.thy ===== *)
theory GoStrings
  imports Utf8
begin

text \<open>
  The part of \<^verbatim>\<open>strings\<close>, \<^verbatim>\<open>strconv\<close>, \<^verbatim>\<open>fmt\<close> and \<^verbatim>\<open>net\<close> the program uses: splitting and
  trimming, decimal text, scanning a number, and taking a host and port apart. White
  space is Unicode white space in its UTF-8 encodings. A white-space encoding starts with
  an ASCII byte or a lead byte, so matching encodings byte by byte is the same as
  decoding runes first.
\<close>

subsection \<open>White space\<close>

definition ws_runes :: "string list" where
  "ws_runes =
     [[CHR 0x09], [CHR 0x0A], [CHR 0x0B], [CHR 0x0C], [CHR 0x0D], [CHR 0x20],
      [CHR 0xC2, CHR 0x85], [CHR 0xC2, CHR 0xA0], [CHR 0xE1, CHR 0x9A, CHR 0x80],
      [CHR 0xE2, CHR 0x80, CHR 0x80], [CHR 0xE2, CHR 0x80, CHR 0x81],
      [CHR 0xE2, CHR 0x80, CHR 0x82], [CHR 0xE2, CHR 0x80, CHR 0x83],
      [CHR 0xE2, CHR 0x80, CHR 0x84], [CHR 0xE2, CHR 0x80, CHR 0x85],
      [CHR 0xE2, CHR 0x80, CHR 0x86], [CHR 0xE2, CHR 0x80, CHR 0x87],
      [CHR 0xE2, CHR 0x80, CHR 0x88], [CHR 0xE2, CHR 0x80, CHR 0x89],
      [CHR 0xE2, CHR 0x80, CHR 0x8A], [CHR 0xE2, CHR 0x80, CHR 0xA8],
      [CHR 0xE2, CHR 0x80, CHR 0xA9], [CHR 0xE2, CHR 0x80, CHR 0xAF],
      [CHR 0xE2, CHR 0x81, CHR 0x9F], [CHR 0xE3, CHR 0x80, CHR 0x80]]"

definition has_prefix :: "string \<Rightarrow> string \<Rightarrow> bool" where
  "has_prefix s p \<longleftrightarrow> take (length p) s = p"

definition has_suffix :: "string \<Rightarrow> string \<Rightarrow> bool" where
  "has_suffix s p \<longleftrightarrow> has_prefix (rev s) (rev p)"

lemma has_prefix_simps [simp]:
  "has_prefix s []" "has_prefix (c # s) (d # p) \<longleftrightarrow> c = d \<and> has_prefix s p"
  "has_prefix [] (d # p) \<longleftrightarrow> False"
  by (auto simp: has_prefix_def)

lemma has_prefix_append [simp]: "has_prefix (p @ s) p"
  by (simp add: has_prefix_def)

lemma has_prefix_iff: "has_prefix s p \<longleftrightarrow> (\<exists>t. s = p @ t)"
  by (metis append_take_drop_id has_prefix_append has_prefix_def)

text \<open>Length of the white-space encoding a string starts (ends) with, 0 when none.\<close>

definition ws_front :: "string \<Rightarrow> nat" where
  "ws_front s = (case find (has_prefix s) ws_runes of None \<Rightarrow> 0 | Some w \<Rightarrow> length w)"

definition ws_back :: "string \<Rightarrow> nat" where
  "ws_back s = (case find (has_suffix s) ws_runes of None \<Rightarrow> 0 | Some w \<Rightarrow> length w)"

lemma ws_front_Nil [simp]: "ws_front [] = 0"
  by (simp add: ws_front_def ws_runes_def has_prefix_def)

lemma ws_back_Nil [simp]: "ws_back [] = 0"
  by (simp add: ws_back_def ws_runes_def has_suffix_def has_prefix_def)

lemma ws_front_le: "ws_front s \<le> length s"
  by (auto simp: ws_front_def find_Some_iff has_prefix_iff split: option.splits)

function trim_left :: "string \<Rightarrow> string" where
  "trim_left s = (if ws_front s = 0 then s else trim_left (drop (ws_front s) s))"
  by pat_completeness auto
termination
proof (relation "measure length", simp)
  fix s assume "ws_front s \<noteq> 0"
  then show "(drop (ws_front s) s, s) \<in> measure length"
    using ws_front_le [of s] by (cases s) auto
qed

function trim_right :: "string \<Rightarrow> string" where
  "trim_right s = (if ws_back s = 0 then s else trim_right (take (length s - ws_back s) s))"
  by pat_completeness auto
termination
proof (relation "measure length", simp)
  fix s assume "ws_back s \<noteq> 0"
  then show "(take (length s - ws_back s) s, s) \<in> measure length"
    by (cases s) auto
qed

declare trim_left.simps [simp del] trim_right.simps [simp del]

text \<open>\<^verbatim>\<open>strings.TrimSpace\<close>.\<close>

definition trim_space :: "string \<Rightarrow> string" where
  "trim_space s = trim_right (trim_left s)"

lemma trim_left_id: "ws_front s = 0 \<Longrightarrow> trim_left s = s"
  by (subst trim_left.simps) simp

lemma trim_right_id: "ws_back s = 0 \<Longrightarrow> trim_right s = s"
  by (subst trim_right.simps) simp

lemma trim_space_id: "ws_front s = 0 \<Longrightarrow> ws_back s = 0 \<Longrightarrow> trim_space s = s"
  by (simp add: trim_space_def trim_left_id trim_right_id)

lemma trim_space_Nil [simp]: "trim_space [] = []"
  by (simp add: trim_space_id)

lemma trim_left_suffix: "\<exists>p. s = p @ trim_left s"
proof (induction s rule: trim_left.induct)
  case (1 s)
  show ?case
  proof (cases "ws_front s = 0")
    case False
    with 1 obtain p where "drop (ws_front s) s = p @ trim_left (drop (ws_front s) s)" by auto
    then have "s = (take (ws_front s) s @ p) @ trim_left (drop (ws_front s) s)"
      by (metis append.assoc append_take_drop_id)
    with False show ?thesis unfolding trim_left.simps [of s] by metis
  qed (simp add: trim_left_id)
qed

lemma trim_right_prefix: "\<exists>p. s = trim_right s @ p"
proof (induction s rule: trim_right.induct)
  case (1 s)
  show ?case
  proof (cases "ws_back s = 0")
    case False
    let ?t = "take (length s - ws_back s) s"
    from False 1 obtain p where "?t = trim_right ?t @ p" by auto
    then have "s = trim_right ?t @ (p @ drop (length s - ws_back s) s)"
      by (metis append.assoc append_take_drop_id)
    with False show ?thesis by (auto simp: trim_right.simps [of s])
  qed (simp add: trim_right_id)
qed

lemma set_trim_space: "set (trim_space s) \<subseteq> set s"
proof -
  obtain p q where "s = p @ trim_left s" "trim_left s = trim_space s @ q"
    using trim_left_suffix trim_right_prefix unfolding trim_space_def by blast
  then show ?thesis by (metis Un_upper1 le_supI2 set_append)
qed

lemma length_trim_space: "length (trim_space s) \<le> length s"
proof -
  obtain p q where *: "s = p @ trim_left s" "trim_left s = trim_space s @ q"
    using trim_left_suffix trim_right_prefix unfolding trim_space_def by blast
  have "length s = length p + length (trim_left s)" using *(1) by (metis length_append)
  moreover have "length (trim_left s) = length (trim_space s) + length q"
    using *(2) by (metis length_append)
  ultimately show ?thesis by simp
qed

text \<open>A visible ASCII character at an end of a string stops trimming there.\<close>

definition graphic :: "char \<Rightarrow> bool" where
  "graphic c \<longleftrightarrow> 0x21 \<le> byte c \<and> byte c < 0x7F"

definition trimmed :: "string \<Rightarrow> bool" where
  "trimmed s \<longleftrightarrow> s \<noteq> [] \<and> graphic (hd s) \<and> graphic (last s)"

lemma ws_runes_not_graphic:
  "list_all (\<lambda>w. w \<noteq> [] \<and> \<not> graphic (hd w) \<and> \<not> graphic (last w)) ws_runes"
  by (simp add: ws_runes_def graphic_def)

lemma ws_front_graphic:
  assumes "graphic c"
  shows "ws_front (c # s) = 0"
proof -
  have "\<not> has_prefix (c # s) w" if "w \<in> set ws_runes" for w
    using assms that ws_runes_not_graphic by (cases w) (auto simp: list_all_iff)
  then have "find (has_prefix (c # s)) ws_runes = None"
    by (simp add: find_None_iff)
  then show ?thesis by (simp add: ws_front_def)
qed

lemma ws_back_graphic:
  assumes "graphic c"
  shows "ws_back (s @ [c]) = 0"
proof -
  have "\<not> has_suffix (s @ [c]) w" if "w \<in> set ws_runes" for w
    using assms that ws_runes_not_graphic
    by (cases w rule: rev_cases) (auto simp: list_all_iff has_suffix_def)
  then have "find (has_suffix (s @ [c])) ws_runes = None"
    by (simp add: find_None_iff)
  then show ?thesis by (simp add: ws_back_def)
qed

lemma trimmed_ends:
  assumes "trimmed s"
  shows "ws_front s = 0" "ws_back s = 0"
  using assms ws_front_graphic [of "hd s" "tl s"] ws_back_graphic [of "last s" "butlast s"]
  by (simp_all add: trimmed_def)

lemma trim_space_trimmed: "trimmed s \<Longrightarrow> trim_space s = s"
  by (simp add: trimmed_ends trim_space_id)

lemma trim_right_ws1:
  "ws_back (s @ [c]) = 1 \<Longrightarrow> trim_right (s @ [c]) = trim_right s"
  by (subst trim_right.simps) simp

lemma trim_left_ws1: "ws_front (c # s) = 1 \<Longrightarrow> trim_left (c # s) = trim_left s"
  by (subst trim_left.simps) simp

lemma ws_back_cr: "ws_back (s @ [CHR 0x0D]) = 1"
  by (simp add: ws_back_def ws_runes_def has_suffix_def)

lemma ws_front_space: "ws_front (CHR '' '' # s) = 1"
  by (simp add: ws_front_def ws_runes_def)

lemma trim_space_line:
  assumes "trimmed s"
  shows "trim_space (s @ [CHR 0x0D]) = s"
proof -
  have "ws_front (s @ [CHR 0x0D]) = 0"
    using assms ws_front_graphic [of "hd s" "tl s @ [CHR 0x0D]"] by (cases s) (auto simp: trimmed_def)
  with assms show ?thesis
    by (simp add: trim_space_def trim_left_id trim_right_ws1 ws_back_cr trim_right_id trimmed_ends)
qed

lemma trim_space_space: "trimmed s \<Longrightarrow> trim_space (CHR '' '' # s) = s"
  by (simp add: trim_space_def trim_left_ws1 ws_front_space trim_left_id trim_right_id trimmed_ends)

text \<open>A string trimming leaves alone; what \<^verbatim>\<open>TrimSpace\<close> returns is one.\<close>

definition clean :: "string \<Rightarrow> bool" where
  "clean s \<longleftrightarrow> ws_front s = 0 \<and> ws_back s = 0"

lemma clean_Nil [simp]: "clean []"
  by (simp add: clean_def)

lemma trimmed_clean: "trimmed s \<Longrightarrow> clean s"
  by (simp add: clean_def trimmed_ends)

lemma trim_space_clean: "clean s \<Longrightarrow> trim_space s = s"
  by (simp add: clean_def trim_space_id)

lemma ws_front_0_iff: "ws_front s = 0 \<longleftrightarrow> (\<forall>w \<in> set ws_runes. \<not> has_prefix s w)"
proof -
  have "w \<noteq> []" if "w \<in> set ws_runes" for w
    using that ws_runes_not_graphic by (auto simp: list_all_iff)
  then show ?thesis
    by (auto simp: ws_front_def find_None_iff find_Some_iff split: option.splits)
qed

lemma ws_back_0_iff: "ws_back s = 0 \<longleftrightarrow> (\<forall>w \<in> set ws_runes. \<not> has_suffix s w)"
proof -
  have "w \<noteq> []" if "w \<in> set ws_runes" for w
    using that ws_runes_not_graphic by (auto simp: list_all_iff)
  then show ?thesis
    by (auto simp: ws_back_def find_None_iff find_Some_iff split: option.splits)
qed

lemma ws_front_trim_left: "ws_front (trim_left s) = 0"
  by (induction s rule: trim_left.induct) (metis trim_left.simps)

lemma ws_back_trim_right: "ws_back (trim_right s) = 0"
  by (induction s rule: trim_right.induct) (metis trim_right.simps)

lemma clean_trim_space: "clean (trim_space s)"
proof -
  obtain q where "trim_left s = trim_space s @ q"
    using trim_right_prefix unfolding trim_space_def by blast
  then have "ws_front (trim_space s) = 0"
    using ws_front_trim_left [of s] by (auto simp: ws_front_0_iff has_prefix_iff)
  then show ?thesis by (simp add: clean_def trim_space_def ws_back_trim_right)
qed

text \<open>White-space encodings longer than one byte hold no ASCII byte, and none a visible one.\<close>

lemma ws_runes_long: "list_all (\<lambda>w. length w = 1 \<or> list_all (\<lambda>c. 0x80 \<le> byte c) w) ws_runes"
  by (simp add: ws_runes_def)

lemma has_suffix_iff: "has_suffix s p \<longleftrightarrow> (\<exists>t. s = t @ p)"
  by (metis has_prefix_iff has_suffix_def rev_append rev_rev_ident)

lemma ws_back_after_ascii:
  assumes "byte c < 0x80" "v \<noteq> []" "ws_back v = 0"
  shows "ws_back (a @ c # v) = 0"
proof -
  have "\<not> has_suffix (a @ c # v) w" if w: "w \<in> set ws_runes" for w
  proof
    assume "has_suffix (a @ c # v) w"
    then obtain t where t: "a @ c # v = t @ w" by (auto simp: has_suffix_iff)
    show False
    proof (cases "length w \<le> length v")
      case True
      then have "has_suffix v w"
        using t by (auto simp: has_suffix_iff append_eq_append_conv2 Cons_eq_append_conv)
      with assms(3) w show False by (auto simp: ws_back_0_iff)
    next
      case False
      then obtain t' where "w = t' @ c # v"
        using t by (auto simp: append_eq_append_conv2 Cons_eq_append_conv)
      then show False
        using w ws_runes_long assms(1,2) by (fastforce simp: list_all_iff)
    qed
  qed
  then show ?thesis by (simp add: ws_back_0_iff)
qed

lemma ws_back_graphic_bound:
  assumes "graphic c"
  shows "ws_back (a @ c # v) \<le> length v"
proof (cases "find (has_suffix (a @ c # v)) ws_runes")
  case (Some w)
  then have w: "w \<in> set ws_runes" "has_suffix (a @ c # v) w"
    by (auto simp: find_Some_iff)
  have "length w \<le> length v"
  proof (rule ccontr)
    assume "\<not> length w \<le> length v"
    with w(2) have "c \<in> set w"
      by (auto simp: has_suffix_iff append_eq_append_conv2 Cons_eq_append_conv)
    then show False
      using assms w(1) ws_runes_long ws_runes_not_graphic
      by (fastforce simp: list_all_iff graphic_def length_Suc_conv)
  qed
  with Some show ?thesis by (simp add: ws_back_def)
qed (simp add: ws_back_def)

lemma trim_right_keeps:
  assumes "graphic c"
  shows "\<exists>w. trim_right (a @ c # v) = a @ c # w"
proof (induction v rule: length_induct)
  case (1 v)
  let ?s = "a @ c # v"
  show ?case
  proof (cases "ws_back ?s = 0")
    case False
    have le: "ws_back ?s \<le> length v" by (rule ws_back_graphic_bound [OF assms])
    then have "take (length ?s - ws_back ?s) ?s = a @ c # take (length v - ws_back ?s) v"
      by (simp add: Suc_diff_le)
    moreover have "length (take (length v - ws_back ?s) v) < length v"
      using False le by auto
    ultimately show ?thesis
      using 1 False by (subst trim_right.simps) auto
  qed (auto simp: trim_right_id)
qed

lemma trim_space_keeps:
  assumes "graphic b" "graphic c"
  shows "\<exists>w. trim_space (b # a @ c # v) = b # a @ c # w"
  using trim_right_keeps [OF assms(2), of "b # a" v]
  by (simp add: trim_space_def trim_left_id ws_front_graphic assms(1))

text \<open>\<^verbatim>\<open>strings.TrimRight(s, "\x00")\<close>.\<close>

definition trim_right_char :: "char \<Rightarrow> string \<Rightarrow> string" where
  "trim_right_char c s = rev (dropWhile ((=) c) (rev s))"

lemma trim_right_char_last: "trim_right_char c s \<noteq> [] \<Longrightarrow> last (trim_right_char c s) \<noteq> c"
  unfolding trim_right_char_def by (metis hd_dropWhile last_rev rev_is_Nil_conv)

subsection \<open>Splitting and joining\<close>

text \<open>\<^verbatim>\<open>strings.Split(s, sep)\<close> for a one-byte separator.\<close>

fun split_on :: "char \<Rightarrow> string \<Rightarrow> string list" where
  "split_on c [] = [[]]"
| "split_on c (x # xs) =
     (if x = c then [] # split_on c xs
      else (case split_on c xs of [] \<Rightarrow> [[x]] | y # ys \<Rightarrow> (x # y) # ys))"

text \<open>\<^verbatim>\<open>strings.Join\<close>.\<close>

fun join :: "string \<Rightarrow> string list \<Rightarrow> string" where
  "join sep [] = []"
| "join sep [x] = x"
| "join sep (x # y # ys) = x @ sep @ join sep (y # ys)"

text \<open>\<^verbatim>\<open>strings.IndexByte\<close>, \<^verbatim>\<open>strings.LastIndexByte\<close>, \<^verbatim>\<open>strings.Index\<close>; \<open>None\<close> is -1.\<close>

fun index_byte :: "char \<Rightarrow> string \<Rightarrow> nat option" where
  "index_byte c [] = None"
| "index_byte c (x # xs) = (if x = c then Some 0 else map_option Suc (index_byte c xs))"

definition last_index_byte :: "char \<Rightarrow> string \<Rightarrow> nat option" where
  "last_index_byte c s = map_option (\<lambda>i. length s - 1 - i) (index_byte c (rev s))"

fun index_str :: "string \<Rightarrow> string \<Rightarrow> nat option" where
  "index_str p [] = (if p = [] then Some 0 else None)"
| "index_str p (x # xs) =
     (if has_prefix (x # xs) p then Some 0 else map_option Suc (index_str p xs))"

definition contains :: "string \<Rightarrow> string \<Rightarrow> bool" where
  "contains s p \<longleftrightarrow> index_str p s \<noteq> None"

text \<open>\<^verbatim>\<open>strings.SplitN(s, sep, n)\<close>: at most \<open>n\<close> pieces, the last one unsplit.\<close>

fun split_n :: "nat \<Rightarrow> char \<Rightarrow> string \<Rightarrow> string list" where
  "split_n 0 c s = []"
| "split_n (Suc 0) c s = [s]"
| "split_n (Suc (Suc n)) c s =
     (case index_byte c s of
        None \<Rightarrow> [s]
      | Some i \<Rightarrow> take i s # split_n (Suc n) c (drop (Suc i) s))"

text \<open>\<^verbatim>\<open>strings.Fields\<close>.\<close>

function fields_from :: "string \<Rightarrow> string \<Rightarrow> string list" where
  "fields_from cur s =
     (if s = [] then (if cur = [] then [] else [cur])
      else if ws_front s = 0 then fields_from (cur @ [hd s]) (tl s)
      else (if cur = [] then [] else [cur]) @ fields_from [] (drop (ws_front s) s))"
  by pat_completeness auto
termination
  by (relation "measure (\<lambda>(cur, s). length s)") auto

declare fields_from.simps [simp del]

definition str_fields :: "string \<Rightarrow> string list" where
  "str_fields s = fields_from [] s"

lemma split_on_not_Nil [simp]: "split_on c s \<noteq> []"
  by (induction s) (auto split: list.splits)

lemma split_on_no_sep: "c \<notin> set s \<Longrightarrow> split_on c s = [s]"
  by (induction s) auto

lemma split_on_append: "split_on c (a @ c # b) = split_on c a @ split_on c b"
  by (induction a) (auto split: list.splits)

lemma sep_notin_split_on: "p \<in> set (split_on c s) \<Longrightarrow> c \<notin> set p"
  by (induction s arbitrary: p) (auto split: if_splits list.splits)

lemma set_split_on: "p \<in> set (split_on c s) \<Longrightarrow> set p \<subseteq> set s"
  by (induction s arbitrary: p) (fastforce split: if_splits list.splits)+

lemma join_Cons: "xs \<noteq> [] \<Longrightarrow> join sep (x # xs) = x @ sep @ join sep xs"
  by (cases xs) auto

lemma join_split_on: "join [c] (split_on c s) = s"
proof (induction s)
  case (Cons x xs)
  then show ?case
    by (cases "split_on c xs"; cases "tl (split_on c xs)") (auto simp: join_Cons)
qed simp

lemma split_on_join:
  "xs \<noteq> [] \<Longrightarrow> \<forall>x\<in>set xs. c \<notin> set x \<Longrightarrow> split_on c (join [c] xs) = xs"
proof (induction xs rule: induct_list012)
  case (3 x y ys)
  then show ?case by (simp add: split_on_append split_on_no_sep)
qed (auto simp: split_on_no_sep)

lemma index_byte_None: "index_byte c s = None \<longleftrightarrow> c \<notin> set s"
  by (induction s) auto

lemma index_byte_append: "c \<notin> set a \<Longrightarrow> index_byte c (a @ c # b) = Some (length a)"
  by (induction a) auto

lemma index_byte_Some:
  "index_byte c s = Some i \<Longrightarrow> i < length s \<and> s ! i = c \<and> c \<notin> set (take i s)"
  by (induction s arbitrary: i) (auto split: if_splits)

lemma index_byte_split: "index_byte c s = Some i \<Longrightarrow> s = take i s @ c # drop (Suc i) s"
  using index_byte_Some by (metis id_take_nth_drop)

lemma split_n_no_sep: "c \<notin> set s \<Longrightarrow> split_n (Suc n) c s = [s]"
  by (cases n) (auto simp: index_byte_None [symmetric])

lemma split_n_append:
  "c \<notin> set a \<Longrightarrow> split_n (Suc (Suc n)) c (a @ c # b) = a # split_n (Suc n) c b"
  by (simp add: index_byte_append)

lemma split_n_not_Nil: "split_n (Suc n) c s \<noteq> []"
  by (cases n) (auto split: option.splits)

lemma last_index_byte_append:
  assumes "c \<notin> set b"
  shows "last_index_byte c (a @ c # b) = Some (length a)"
proof -
  have "index_byte c (rev b @ c # rev a) = Some (length (rev b))"
    using assms by (intro index_byte_append) simp
  then show ?thesis by (simp add: last_index_byte_def)
qed

lemma last_index_byte_None: "last_index_byte c s = None \<longleftrightarrow> c \<notin> set s"
  by (simp add: last_index_byte_def index_byte_None)

subsection \<open>Decimal text\<close>

definition is_digit :: "char \<Rightarrow> bool" where
  "is_digit c \<longleftrightarrow> 48 \<le> byte c \<and> byte c \<le> 57"

definition digit_val :: "char \<Rightarrow> nat" where
  "digit_val c = byte c - 48"

definition digit_char :: "nat \<Rightarrow> char" where
  "digit_char d = char_of (48 + d)"

fun show_nat :: "nat \<Rightarrow> string" where
  "show_nat n = (if n < 10 then [digit_char n] else show_nat (n div 10) @ [digit_char (n mod 10)])"

declare show_nat.simps [simp del]

text \<open>\<^verbatim>\<open>%d\<close> of \<^verbatim>\<open>fmt.Sprintf\<close>.\<close>

definition show_int :: "int \<Rightarrow> string" where
  "show_int i = (if i < 0 then CHR ''-'' # show_nat (nat (- i)) else show_nat (nat i))"

definition digits_val :: "string \<Rightarrow> nat" where
  "digits_val s = foldl (\<lambda>n c. 10 * n + digit_val c) 0 s"

lemma digit_char_props [simp]:
  "d < 10 \<Longrightarrow> is_digit (digit_char d)" "d < 10 \<Longrightarrow> digit_val (digit_char d) = d"
  by (auto simp: is_digit_def digit_char_def digit_val_def)

lemma show_nat_digits: "list_all is_digit (show_nat n)"
  by (induction n rule: show_nat.induct) (subst show_nat.simps, auto)

lemma show_nat_not_Nil [simp]: "show_nat n \<noteq> []"
  by (subst show_nat.simps) simp

lemma digits_val_snoc [simp]: "digits_val (s @ [c]) = 10 * digits_val s + digit_val c"
  by (simp add: digits_val_def)

lemma digits_val_single [simp]: "digits_val [c] = digit_val c"
  by (simp add: digits_val_def)

lemma digits_val_show_nat [simp]: "digits_val (show_nat n) = n"
proof (induction n rule: show_nat.induct)
  case (1 n)
  then show ?case by (cases "n < 10") (simp_all add: show_nat.simps [of n])
qed

datatype num_error = ErrSyntax | ErrRange int

text \<open>
  \<^verbatim>\<open>strconv.ParseInt(s, 10, 64)\<close>. The digit loop of \<^verbatim>\<open>ParseUint\<close> stops at the first
  overflow of 64 bits, before it has looked at the rest of the text.
\<close>

fun parse_uint :: "nat \<Rightarrow> string \<Rightarrow> num_error + nat" where
  "parse_uint n [] = Inr n"
| "parse_uint n (c # s) =
     (if \<not> is_digit c then Inl ErrSyntax
      else if 10 * n + digit_val c \<ge> 2 ^ 64 then Inl (ErrRange (2 ^ 64 - 1))
      else parse_uint (10 * n + digit_val c) s)"

definition parse_int64 :: "string \<Rightarrow> num_error + int" where
  "parse_int64 s =
     (case s of [] \<Rightarrow> Inl ErrSyntax
      | c # t \<Rightarrow>
         (let neg = (c = CHR ''-'');
              ds = (if c = CHR ''-'' \<or> c = CHR ''+'' then t else s)
          in if ds = [] then Inl ErrSyntax
             else (case parse_uint 0 ds of
                Inl ErrSyntax \<Rightarrow> Inl ErrSyntax
              | Inl (ErrRange _) \<Rightarrow> Inl (ErrRange (if neg then - (2 ^ 63) else 2 ^ 63 - 1))
              | Inr n \<Rightarrow>
                  if \<not> neg \<and> n \<ge> 2 ^ 63 then Inl (ErrRange (2 ^ 63 - 1))
                  else if neg \<and> n > 2 ^ 63 then Inl (ErrRange (- (2 ^ 63)))
                  else Inr (if neg then - int n else int n))))"

text \<open>\<^verbatim>\<open>n, _ := strconv.ParseInt(s, 10, 64)\<close>: the value when the error is dropped.\<close>

definition parse_int64_value :: "string \<Rightarrow> int" where
  "parse_int64_value s =
     (case parse_int64 s of Inr i \<Rightarrow> i | Inl ErrSyntax \<Rightarrow> 0 | Inl (ErrRange i) \<Rightarrow> i)"

text \<open>\<^verbatim>\<open>strconv.Atoi\<close> with its error as \<open>None\<close>; \<^verbatim>\<open>int\<close> has 64 bits.\<close>

definition atoi :: "string \<Rightarrow> int option" where
  "atoi s = (case parse_int64 s of Inr i \<Rightarrow> Some i | Inl _ \<Rightarrow> None)"

lemma foldl_digits_ge: "n \<le> foldl (\<lambda>n c. 10 * n + digit_val c) n s"
proof (induction s arbitrary: n)
  case (Cons c s)
  show ?case using Cons.IH [of "10 * n + digit_val c"] by simp
qed simp

lemma parse_uint_digits:
  "list_all is_digit s \<Longrightarrow> foldl (\<lambda>n c. 10 * n + digit_val c) n s < 2 ^ 64 \<Longrightarrow>
   parse_uint n s = Inr (foldl (\<lambda>n c. 10 * n + digit_val c) n s)"
proof (induction s arbitrary: n)
  case (Cons c s)
  then have "10 * n + digit_val c < 2 ^ 64"
    using foldl_digits_ge [of "10 * n + digit_val c" s] by simp
  with Cons show ?case by simp
qed simp

lemma parse_uint_show_nat: "n < 2 ^ 64 \<Longrightarrow> parse_uint 0 (show_nat n) = Inr n"
  using parse_uint_digits [of "show_nat n" 0] show_nat_digits [of n] digits_val_show_nat [of n]
  by (simp add: digits_val_def)

lemma show_nat_head: "\<exists>c t. show_nat n = c # t \<and> is_digit c"
  using show_nat_digits [of n] by (cases "show_nat n") auto

lemma parse_int64_show_int:
  assumes "- (2 ^ 63) \<le> i" "i < 2 ^ 63"
  shows "parse_int64 (show_int i) = Inr i"
proof (cases "i < 0")
  case True
  with assms have "nat (- i) < 2 ^ 64" by simp
  note parse_uint_show_nat [OF this]
  with True assms show ?thesis by (simp add: show_int_def parse_int64_def)
next
  case False
  obtain c t where ct: "show_nat (nat i) = c # t" "is_digit c"
    using show_nat_head by blast
  then have "c \<noteq> CHR ''-''" "c \<noteq> CHR ''+''" by (auto simp: is_digit_def)
  moreover have "parse_uint 0 (c # t) = Inr (nat i)"
    using False assms parse_uint_show_nat [of "nat i"] ct by simp
  ultimately show ?thesis
    using False assms ct by (simp add: show_int_def parse_int64_def del: parse_uint.simps)
qed

lemma atoi_show_int: "- (2 ^ 63) \<le> i \<Longrightarrow> i < 2 ^ 63 \<Longrightarrow> atoi (show_int i) = Some i"
  by (simp add: atoi_def parse_int64_show_int)

text \<open>
  \<^verbatim>\<open>fmt.Sscanf(s, "%d", &v)\<close>: skip spaces, an optional sign, as many digits as follow.
  \<open>None\<close> leaves the variable as it was. What follows the digits is not looked at.
\<close>

definition scan_int :: "string \<Rightarrow> int option" where
  "scan_int s =
     (let t = trim_left s;
          sign = (case t of c # _ \<Rightarrow> if c = CHR ''-'' \<or> c = CHR ''+'' then [c] else [] | [] \<Rightarrow> []);
          ds = takeWhile is_digit (drop (length sign) t)
      in if ds = [] then None else atoi (sign @ ds))"

subsection \<open>Host and port\<close>

text \<open>\<^verbatim>\<open>net.SplitHostPort\<close>; on an error both results are empty, here \<open>None\<close>.\<close>

definition split_host_port :: "string \<Rightarrow> (string \<times> string) option" where
  "split_host_port hp =
     (case last_index_byte CHR '':'' hp of
        None \<Rightarrow> None
      | Some i \<Rightarrow>
          (if hd hp = CHR ''['' then
             (case index_byte CHR '']'' hp of
                None \<Rightarrow> None
              | Some e \<Rightarrow>
                  if Suc e \<noteq> i then None
                  else if CHR ''['' \<in> set (drop 1 hp) then None
                  else if CHR '']'' \<in> set (drop (Suc e) hp) then None
                  else Some (take (e - 1) (drop 1 hp), drop (Suc i) hp))
           else if CHR '':'' \<in> set (take i hp) then None
           else if CHR ''['' \<in> set hp then None
           else if CHR '']'' \<in> set hp then None
           else Some (take i hp, drop (Suc i) hp)))"

lemma split_host_port_v4:
  assumes "h \<noteq> []" "CHR '':'' \<notin> set h" "CHR ''['' \<notin> set h" "CHR '']'' \<notin> set h"
    and "list_all is_digit p"
  shows "split_host_port (h @ CHR '':'' # p) = Some (h, p)"
proof -
  have p: "CHR '':'' \<notin> set p" "CHR ''['' \<notin> set p" "CHR '']'' \<notin> set p"
    using assms(5) by (auto simp: list_all_iff is_digit_def)
  have "hd (h @ CHR '':'' # p) \<noteq> CHR ''[''"
    using assms(1,3) by (cases h) auto
  then show ?thesis
    using assms p by (simp add: split_host_port_def last_index_byte_append)
qed

end
