(* ===== verification/Json.thy ===== *)
theory Json
  imports GoStrings
begin

text \<open>
  JSON text as the program writes it by hand (\<^verbatim>\<open>jesc\<close> of \<^verbatim>\<open>core-go/main.go\<close> and
  \<^verbatim>\<open>Fprintf\<close>) and as \<^verbatim>\<open>encoding/json\<close> reads it back. The reader covers the fragment the
  capture records use: one object whose members are strings or integers, without white
  space; the string scanner is complete (escapes, surrogate pairs, invalid UTF-8 coerced).
\<close>

abbreviation dq :: char where "dq \<equiv> CHR 0x22"
abbreviation bsl :: char where "bsl \<equiv> CHR 0x5C"

definition hex_digit :: "nat \<Rightarrow> char" where
  "hex_digit d = (if d < 10 then char_of (48 + d) else char_of (87 + d))"

definition hex_val :: "char \<Rightarrow> nat option" where
  "hex_val c = (let b = byte c in
     if 48 \<le> b \<and> b \<le> 57 then Some (b - 48)
     else if 97 \<le> b \<and> b \<le> 102 then Some (b - 87)
     else if 65 \<le> b \<and> b \<le> 70 then Some (b - 55) else None)"

lemma hex_val_digit [simp]: "d < 16 \<Longrightarrow> hex_val (hex_digit d) = Some d"
  by (auto simp: hex_val_def hex_digit_def)

text \<open>\<^verbatim>\<open>%04x\<close>.\<close>

definition hex4 :: "nat \<Rightarrow> string" where
  "hex4 r = [hex_digit (r div 4096 mod 16), hex_digit (r div 256 mod 16),
             hex_digit (r div 16 mod 16), hex_digit (r mod 16)]"

subsection \<open>Writing: jesc\<close>

text \<open>One turn of the loop of \<^verbatim>\<open>jesc\<close>: its \<^verbatim>\<open>switch\<close> on the rune.\<close>

definition jesc_rune :: "nat \<Rightarrow> string" where
  "jesc_rune c =
     (if c = 34 then [bsl, dq]
      else if c = 92 then [bsl, bsl]
      else if c = 10 then [bsl, CHR ''n'']
      else if c = 13 then [bsl, CHR ''r'']
      else if c = 9 then [bsl, CHR ''t'']
      else if c < 0x20 then [bsl, CHR ''u''] @ hex4 c
      else encode_rune c)"

definition jesc :: "string \<Rightarrow> string" where
  "jesc s = concat (map jesc_rune (runes s))"

subsection \<open>Reading a string literal\<close>

definition get_u4 :: "string \<Rightarrow> (nat \<times> string) option" where
  "get_u4 s =
     (case s of
        a # b # c # d # t \<Rightarrow>
          (case (hex_val a, hex_val b, hex_val c, hex_val d) of
             (Some p, Some q, Some r, Some u) \<Rightarrow> Some (4096 * p + 256 * q + 16 * r + u, t)
           | _ \<Rightarrow> None)
      | _ \<Rightarrow> None)"

datatype jtok = JEnd string | JRune nat string | JBad

definition escape_rune :: "char \<Rightarrow> nat option" where
  "escape_rune e =
     (if e = dq \<or> e = bsl \<or> e = CHR ''/'' then Some (byte e)
      else if e = CHR ''b'' then Some 8
      else if e = CHR ''f'' then Some 12
      else if e = CHR ''n'' then Some 10
      else if e = CHR ''r'' then Some 13
      else if e = CHR ''t'' then Some 9 else None)"

text \<open>A \<^verbatim>\<open>\u\<close> escape after its four digits: a surrogate pair is one rune, a lone half U+FFFD.\<close>

definition join_surrogates :: "nat \<Rightarrow> string \<Rightarrow> jtok" where
  "join_surrogates r t =
     (if r < 0xD800 \<or> 0xDFFF < r then JRune r t
      else (case t of
          b # u # t' \<Rightarrow>
            (if b = bsl \<and> u = CHR ''u'' then
               (case get_u4 t' of
                  Some (r2, t2) \<Rightarrow>
                    if r \<le> 0xDBFF \<and> 0xDC00 \<le> r2 \<and> r2 \<le> 0xDFFF
                    then JRune ((r - 0xD800) * 1024 + (r2 - 0xDC00) + 0x10000) t2
                    else JRune rune_error t
                | None \<Rightarrow> JRune rune_error t)
             else JRune rune_error t)
        | _ \<Rightarrow> JRune rune_error t))"

definition jstep :: "string \<Rightarrow> jtok" where
  "jstep s =
     (case s of
        [] \<Rightarrow> JBad
      | c # t \<Rightarrow>
          if c = dq then JEnd t
          else if c = bsl then
            (case t of
               [] \<Rightarrow> JBad
             | e # t1 \<Rightarrow>
                 if e = CHR ''u'' then
                   (case get_u4 t1 of None \<Rightarrow> JBad | Some (r, t2) \<Rightarrow> join_surrogates r t2)
                 else (case escape_rune e of None \<Rightarrow> JBad | Some r \<Rightarrow> JRune r t1))
          else if byte c < 0x20 then JBad
          else JRune (fst (decode_rune s)) (drop (snd (decode_rune s)) s))"

lemma get_u4_length: "get_u4 s = Some (r, t) \<Longrightarrow> length t < length s"
  by (auto simp: get_u4_def split: list.splits option.splits)

lemma join_surrogates_length: "join_surrogates r t = JRune r' t' \<Longrightarrow> length t' \<le> length t"
  by (auto simp: join_surrogates_def dest!: get_u4_length
      split: list.splits option.splits if_splits prod.splits)

lemma jstep_length: "jstep s = JRune r t \<Longrightarrow> length t < length s"
  using decode_rune_width [of s]
  by (auto simp: jstep_def dest!: get_u4_length join_surrogates_length
      split: list.splits option.splits if_splits prod.splits)

lemma jstep_end_length: "jstep s = JEnd t \<Longrightarrow> length t < length s"
  by (auto simp: jstep_def join_surrogates_def split: list.splits option.splits if_splits)

function scan_str :: "string \<Rightarrow> (string \<times> string) option" where
  "scan_str s =
     (case jstep s of
        JBad \<Rightarrow> None
      | JEnd t \<Rightarrow> Some ([], t)
      | JRune r t \<Rightarrow> map_option (\<lambda>(x, rest). (encode_rune r @ x, rest)) (scan_str t))"
  by pat_completeness auto
termination
  using jstep_length by (relation "measure length") auto

declare scan_str.simps [simp del]

lemma encode_rune_head:
  assumes "0x20 \<le> r"
  shows "\<exists>c t. encode_rune r = c # t \<and> byte c \<ge> 0x20 \<and> (byte c = 34 \<longrightarrow> r = 34) \<and> (byte c = 92 \<longrightarrow> r = 92)"
proof (cases "r < 0x80")
  case False
  have "r div 64 < 32" if "r < 0x800" using that by simp
  moreover have "r div 4096 < 16" if "r < 0x10000" using that by simp
  moreover have "r div 262144 < 5" if "valid_rune r" using that by (auto simp: valid_rune_def)
  ultimately show ?thesis
    using False by (auto simp: encode_rune_def)
qed (use assms in simp)

lemma jstep_jesc_rune:
  assumes "valid_rune r"
  shows "jstep (jesc_rune r @ s) = JRune r s"
proof -
  consider "r = 34" | "r = 92" | "r = 10" | "r = 13" | "r = 9"
    | "r < 0x20" "r \<notin> {9, 10, 13}" | "0x20 \<le> r" "r \<notin> {34, 92}"
    by fastforce
  then show ?thesis
  proof cases
    case 6
    then have "r div 256 = 0" "r div 4096 = 0" "r div 16 < 2" by auto
    moreover have "16 * (r div 16) + r mod 16 = r" by simp
    ultimately show ?thesis
      using 6 by (simp add: jesc_rune_def jstep_def hex4_def get_u4_def join_surrogates_def)
  next
    case 7
    then obtain c t where c: "encode_rune r = c # t" "byte c \<ge> 0x20" "byte c \<noteq> 34" "byte c \<noteq> 92"
      using encode_rune_head by (metis insertCI)
    then have "c \<noteq> dq" "c \<noteq> bsl" by auto
    moreover have "decode_rune (encode_rune r @ s) = (r, length (encode_rune r))"
      using assms by (rule decode_encode)
    ultimately show ?thesis
      using 7 c by (simp add: jesc_rune_def jstep_def)
  qed (simp_all add: jesc_rune_def jstep_def escape_rune_def)
qed

lemma scan_str_jesc_rune:
  "valid_rune r \<Longrightarrow>
   scan_str (jesc_rune r @ s) = map_option (\<lambda>(x, rest). (encode_rune r @ x, rest)) (scan_str s)"
  by (subst scan_str.simps) (simp add: jstep_jesc_rune)

lemma scan_str_quote [simp]: "scan_str (dq # rest) = Some ([], rest)"
  by (subst scan_str.simps) (simp add: jstep_def)

lemma scan_str_runes:
  "list_all valid_rune rs \<Longrightarrow>
   scan_str (concat (map jesc_rune rs) @ dq # rest) = Some (concat (map encode_rune rs), rest)"
  by (induction rs) (auto simp: scan_str_jesc_rune)

lemma scan_str_jesc: "scan_str (jesc s @ dq # rest) = Some (sanitize s, rest)"
  by (simp add: jesc_def sanitize_def scan_str_runes list_all_iff runes_valid)

subsection \<open>Objects of strings and integers\<close>

datatype jval = JStr string | JNum int

definition print_val :: "jval \<Rightarrow> string" where
  "print_val v = (case v of JStr s \<Rightarrow> dq # jesc s @ [dq] | JNum n \<Rightarrow> show_int n)"

definition print_member :: "string \<times> jval \<Rightarrow> string" where
  "print_member m = dq # jesc (fst m) @ [dq, CHR '':''] @ print_val (snd m)"

definition print_object :: "(string \<times> jval) list \<Rightarrow> string" where
  "print_object ms = CHR ''{'' # join '','' (map print_member ms) @ ''}''"

definition num_char :: "char \<Rightarrow> bool" where
  "num_char c \<longleftrightarrow> is_digit c \<or> c = CHR ''-''"

definition parse_val :: "string \<Rightarrow> (jval \<times> string) option" where
  "parse_val s =
     (case s of
        [] \<Rightarrow> None
      | c # t \<Rightarrow>
          if c = dq then map_option (\<lambda>(x, r). (JStr x, r)) (scan_str t)
          else map_option (\<lambda>i. (JNum i, dropWhile num_char s)) (atoi (takeWhile num_char s)))"

definition parse_member :: "string \<Rightarrow> ((string \<times> jval) \<times> string) option" where
  "parse_member s =
     (case s of
        q # t \<Rightarrow>
          (if q = dq then
             (case scan_str t of
                Some (k, colon # t1) \<Rightarrow>
                  (if colon = CHR '':'' then map_option (\<lambda>(v, r). ((k, v), r)) (parse_val t1) else None)
              | _ \<Rightarrow> None)
           else None)
      | [] \<Rightarrow> None)"

lemma scan_str_length: "scan_str s = Some (x, t) \<Longrightarrow> length t < length s"
proof (induction s arbitrary: x t rule: scan_str.induct)
  case (1 s)
  then show ?case
    by (fastforce simp: scan_str.simps [of s] split: jtok.splits
        dest: jstep_length jstep_end_length)
qed

lemma parse_val_length:
  assumes "parse_val s = Some (v, t)"
  shows "length t \<le> length s"
proof (cases s)
  case (Cons c u)
  show ?thesis
  proof (cases "c = dq")
    case True
    with assms Cons show ?thesis by (auto simp: parse_val_def dest: scan_str_length)
  next
    case False
    with assms Cons have "t = dropWhile num_char s" by (auto simp: parse_val_def)
    then show ?thesis by (simp add: length_dropWhile_le)
  qed
qed (use assms in \<open>simp add: parse_val_def\<close>)

lemma parse_member_length: "parse_member s = Some (m, t) \<Longrightarrow> length t < length s"
  by (auto simp: parse_member_def dest!: scan_str_length parse_val_length
      split: list.splits if_splits option.splits prod.splits)

function parse_members :: "string \<Rightarrow> ((string \<times> jval) list \<times> string) option" where
  "parse_members s =
     (case parse_member s of
        Some (m, c # t) \<Rightarrow>
          (if c = CHR '','' then map_option (\<lambda>(ms, r). (m # ms, r)) (parse_members t)
           else if c = CHR ''}'' then Some ([m], t) else None)
      | _ \<Rightarrow> None)"
  by pat_completeness auto
termination
  by (relation "measure length") (auto dest!: parse_member_length)

declare parse_members.simps [simp del]

definition parse_object :: "string \<Rightarrow> (string \<times> jval) list option" where
  "parse_object s =
     (case s of
        b # t \<Rightarrow> (if b = CHR ''{'' then
            (case parse_members t of Some (ms, []) \<Rightarrow> Some ms | _ \<Rightarrow> None) else None)
      | [] \<Rightarrow> None)"

fun clean_val :: "jval \<Rightarrow> jval" where
  "clean_val (JStr s) = JStr (sanitize s)"
| "clean_val (JNum n) = JNum n"

fun int64_val :: "jval \<Rightarrow> bool" where
  "int64_val (JStr s) = True"
| "int64_val (JNum n) \<longleftrightarrow> - (2 ^ 63) \<le> n \<and> n < 2 ^ 63"

lemma show_int_num_char: "list_all num_char (show_int n)"
  using show_nat_digits by (auto simp: show_int_def num_char_def list_all_iff)

lemma num_char_split:
  assumes "list_all num_char a" "\<not> num_char c"
  shows "takeWhile num_char (a @ c # t) = a" "dropWhile num_char (a @ c # t) = c # t"
  using assms by (induction a) auto

lemma show_int_head: "\<exists>c t. show_int n = c # t \<and> c \<noteq> dq"
proof -
  obtain c t where "show_nat (nat n) = c # t" "is_digit c" using show_nat_head by blast
  then show ?thesis by (auto simp: show_int_def is_digit_def)
qed

lemma parse_val_print:
  assumes "int64_val v" "c \<in> {CHR '','', CHR ''}''}"
  shows "parse_val (print_val v @ c # t) = Some (clean_val v, c # t)"
proof (cases v)
  case (JStr s)
  then show ?thesis by (simp add: print_val_def parse_val_def scan_str_jesc)
next
  case (JNum n)
  obtain d u where hd: "show_int n = d # u" "d \<noteq> dq" using show_int_head by blast
  have "\<not> num_char c" using assms(2) by (auto simp: num_char_def is_digit_def)
  with assms JNum hd show ?thesis
    using num_char_split [OF show_int_num_char, of c n t] atoi_show_int [of n]
    by (auto simp: print_val_def parse_val_def)
qed

lemma parse_member_print:
  assumes "int64_val v" "c \<in> {CHR '','', CHR ''}''}"
  shows "parse_member (print_member (k, v) @ c # t) = Some ((sanitize k, clean_val v), c # t)"
  using scan_str_jesc [of k "CHR '':'' # print_val v @ c # t"] parse_val_print [OF assms]
  by (simp add: print_member_def parse_member_def)

definition clean_member :: "string \<times> jval \<Rightarrow> string \<times> jval" where
  "clean_member m = (sanitize (fst m), clean_val (snd m))"

lemma parse_members_print:
  "ms \<noteq> [] \<Longrightarrow> list_all (int64_val \<circ> snd) ms \<Longrightarrow>
   parse_members (join '','' (map print_member ms) @ CHR ''}'' # t) = Some (map clean_member ms, t)"
proof (induction ms rule: induct_list012)
  case (2 m)
  then show ?case
    using parse_member_print [of "snd m" "CHR ''}''" "fst m" t]
    by (subst parse_members.simps) (simp add: clean_member_def)
next
  case (3 m m' ms)
  then show ?case
    using parse_member_print [of "snd m" "CHR '',''" "fst m"
        "join '','' (map print_member (m' # ms)) @ CHR ''}'' # t"]
    by (subst parse_members.simps) (simp add: clean_member_def)
qed simp

lemma parse_print_object:
  "ms \<noteq> [] \<Longrightarrow> list_all (int64_val \<circ> snd) ms \<Longrightarrow>
   parse_object (print_object ms) = Some (map clean_member ms)"
  by (simp add: print_object_def parse_object_def parse_members_print)

subsection \<open>Properties\<close>

text \<open>A JSON object printed with \<open>jesc\<close> from untrusted strings always parses, member by member,
  to the same strings with invalid UTF-8 replaced; no string can end early or add a member.\<close>

theorem escaped_object_parses:
  "ms \<noteq> [] \<Longrightarrow> list_all (int64_val \<circ> snd) ms \<Longrightarrow>
   parse_object (print_object ms) = Some (map clean_member ms)"
  by (rule parse_print_object)

theorem escaped_object_parses_witness:
  "parse_object (print_object [(''k'', JStr [dq, CHR '','', bsl]), (''n'', JNum (- 5))])
   = Some [(''k'', JStr [dq, CHR '','', bsl]), (''n'', JNum (- 5))]"
  using escaped_object_parses [of "[(''k'', JStr [dq, CHR '','', bsl]), (''n'', JNum (- 5))]"]
  by (simp add: clean_member_def sanitize_ascii)

end
