(* ===== verification/Cache.thy ===== *)
theory Cache
  imports Prelude
begin

text \<open>
  The response cache (\<^verbatim>\<open>core-go/cache.go\<close>): a map from a key to JSON text. \<^verbatim>\<open>Set\<close> and \<^verbatim>\<open>Get\<close>
  run under \<^verbatim>\<open>mu\<close>. The contract is the locale \<open>kv_store\<close>, used by the handlers that answer
  from the cache.
\<close>

type_synonym cache = "string \<rightharpoonup> string"

definition new_cache :: cache where
  "new_cache = Map.empty"

definition cache_set :: "string \<Rightarrow> string \<Rightarrow> cache \<Rightarrow> cache" where
  "cache_set k v c = c(k \<mapsto> v)"

definition cache_get :: "cache \<Rightarrow> string \<Rightarrow> string option" where
  "cache_get c k = c k"

locale kv_store =
  fixes empty :: 'm
    and set_kv :: "'k \<Rightarrow> 'v \<Rightarrow> 'm \<Rightarrow> 'm"
    and get_kv :: "'m \<Rightarrow> 'k \<Rightarrow> 'v option"
  assumes get_empty: "get_kv empty k = None"
    and get_set: "get_kv (set_kv k v m) k' = (if k' = k then Some v else get_kv m k')"
begin

text \<open>Writing the non-blank ones of a list of entries: what a refresh does.\<close>

lemma get_fold_other:
  "k \<notin> fst ` set es \<Longrightarrow>
   get_kv (fold (\<lambda>(k, v) m. if ok v then set_kv k v m else m) es m) k = get_kv m k"
  by (induction es arbitrary: m) (auto simp: get_set)

lemma get_fold_entry:
  assumes "distinct (map fst es)" "(k, v) \<in> set es"
  shows "get_kv (fold (\<lambda>(k, v) m. if ok v then set_kv k v m else m) es m) k
    = (if ok v then Some v else get_kv m k)"
  using assms
proof (induction es arbitrary: m)
  case (Cons e es)
  show ?case
  proof (cases "e = (k, v)")
    case True
    with Cons.prems have "k \<notin> fst ` set es" by auto
    with True show ?thesis by (simp add: get_fold_other get_set)
  next
    case False
    with Cons.prems have "(k, v) \<in> set es" "fst e \<noteq> k" by (auto intro: rev_image_eqI)
    with Cons.prems show ?thesis
      by (cases e) (simp add: Cons.IH get_set)
  qed
qed simp

end

interpretation cache_kv: kv_store new_cache cache_set cache_get
  by unfold_locales (auto simp: new_cache_def cache_set_def cache_get_def)

text \<open>
  \<^verbatim>\<open>refreshCache\<close>: each builder's text replaces the cached one unless it is empty. The six
  builders read the database; their results at the time of the refresh are the argument.
\<close>

record cache_texts =
  realtime_json :: string
  nodes_json :: string
  calls_json :: string
  top_talkers_json :: string
  agents_json :: string
  sla_agents_json :: string

definition set_unless_empty :: "string \<Rightarrow> string \<Rightarrow> cache \<Rightarrow> cache" where
  "set_unless_empty k j c = (if j \<noteq> [] then cache_set k j c else c)"

definition refresh_cache :: "cache_texts \<Rightarrow> cache \<Rightarrow> cache" where
  "refresh_cache b c0 =
     (let c1 = set_unless_empty ''realtime'' (realtime_json b) c0;
          c2 = set_unless_empty ''nodes'' (nodes_json b) c1;
          c3 = set_unless_empty ''calls'' (calls_json b) c2;
          c4 = set_unless_empty ''top_talkers'' (top_talkers_json b) c3;
          c5 = set_unless_empty ''agents'' (agents_json b) c4
      in set_unless_empty ''sla_agents'' (sla_agents_json b) c5)"

definition cache_entries :: "cache_texts \<Rightarrow> (string \<times> string) list" where
  "cache_entries b =
     [(''realtime'', realtime_json b), (''nodes'', nodes_json b), (''calls'', calls_json b),
      (''top_talkers'', top_talkers_json b), (''agents'', agents_json b),
      (''sla_agents'', sla_agents_json b)]"

lemma refresh_cache_fold:
  "refresh_cache b c =
   fold (\<lambda>(k, v) m. if v \<noteq> [] then cache_set k v m else m) (cache_entries b) c"
  by (simp add: refresh_cache_def cache_entries_def set_unless_empty_def Let_def)

lemma distinct_cache_entries: "distinct (map fst (cache_entries b))"
  by (simp add: cache_entries_def)

text \<open>The worker's loop: a refresh at the start and one per tick.\<close>

definition cache_worker :: "cache_texts \<Rightarrow> cache_texts list \<Rightarrow> cache \<Rightarrow> cache" where
  "cache_worker first ticks c = fold refresh_cache ticks (refresh_cache first c)"

subsection \<open>Properties\<close>

text \<open>A refresh replaces each of the six cached texts by the builder's result, keeps the old
  text where the builder returned nothing, and touches no other key.\<close>

theorem refresh_replaces:
  "cache_get (refresh_cache b c) k =
     (case map_of (cache_entries b) k of
        Some v \<Rightarrow> if v \<noteq> [] then Some v else cache_get c k
      | None \<Rightarrow> cache_get c k)"
proof (cases "map_of (cache_entries b) k")
  case None
  then have "k \<notin> fst ` set (cache_entries b)" by (simp add: map_of_eq_None_iff)
  with None show ?thesis by (simp add: refresh_cache_fold cache_kv.get_fold_other)
next
  case (Some v)
  then have "(k, v) \<in> set (cache_entries b)" by (rule map_of_SomeD)
  with Some show ?thesis
    by (simp add: refresh_cache_fold cache_kv.get_fold_entry [OF distinct_cache_entries])
qed

end
