(* ===== verification/Base64.thy ===== *)
theory Base64
  imports Json
begin

text \<open>
  \<^verbatim>\<open>base64.StdEncoding\<close>: \<^verbatim>\<open>EncodeToString\<close> and \<^verbatim>\<open>DecodeString\<close>. The decoder skips carriage
  returns and newlines, wants the padding, and does not check the unused bits of the last
  group. Capture records and session tokens are stored in this form.
\<close>

definition b64_char :: "nat \<Rightarrow> char" where
  "b64_char n = (if n < 26 then char_of (65 + n) else if n < 52 then char_of (71 + n)
     else if n < 62 then char_of (n - 4) else if n = 62 then CHR ''+'' else CHR ''/'')"

definition b64_val :: "char \<Rightarrow> nat option" where
  "b64_val c = (let b = byte c in
     if 65 \<le> b \<and> b \<le> 90 then Some (b - 65)
     else if 97 \<le> b \<and> b \<le> 122 then Some (b - 71)
     else if 48 \<le> b \<and> b \<le> 57 then Some (b + 4)
     else if c = CHR ''+'' then Some 62
     else if c = CHR ''/'' then Some 63 else None)"

abbreviation pad :: char where "pad \<equiv> CHR ''=''"

fun b64_encode :: "string \<Rightarrow> string" where
  "b64_encode [] = []"
| "b64_encode [a] =
     [b64_char (byte a div 4), b64_char (byte a mod 4 * 16), pad, pad]"
| "b64_encode [a, b] =
     [b64_char (byte a div 4), b64_char (byte a mod 4 * 16 + byte b div 16),
      b64_char (byte b mod 16 * 4), pad]"
| "b64_encode (a # b # c # s) =
     b64_char (byte a div 4) # b64_char (byte a mod 4 * 16 + byte b div 16)
     # b64_char (byte b mod 16 * 4 + byte c div 64) # b64_char (byte c mod 64)
     # b64_encode s"

definition b64_group3 :: "nat \<Rightarrow> nat \<Rightarrow> nat \<Rightarrow> nat \<Rightarrow> string" where
  "b64_group3 p q r t =
     [char_of (p * 4 + q div 16), char_of (q mod 16 * 16 + r div 4), char_of (r mod 4 * 64 + t)]"

fun b64_groups :: "string \<Rightarrow> string option" where
  "b64_groups [] = Some []"
| "b64_groups (a # b # c # d # s) =
     (case (b64_val a, b64_val b) of
        (Some p, Some q) \<Rightarrow>
          (if c = pad then
             (if d = pad \<and> s = [] then Some (take 1 (b64_group3 p q 0 0)) else None)
           else (case b64_val c of
              None \<Rightarrow> None
            | Some r \<Rightarrow>
                if d = pad then (if s = [] then Some (take 2 (b64_group3 p q r 0)) else None)
                else (case b64_val d of
                   None \<Rightarrow> None
                 | Some t \<Rightarrow> map_option ((@) (b64_group3 p q r t)) (b64_groups s))))
      | _ \<Rightarrow> None)"
| "b64_groups _ = None"

definition b64_decode :: "string \<Rightarrow> string option" where
  "b64_decode s = b64_groups (filter (\<lambda>c. c \<noteq> CHR 0x0A \<and> c \<noteq> CHR 0x0D) s)"

definition b64_alphabet :: "char \<Rightarrow> bool" where
  "b64_alphabet c \<longleftrightarrow> graphic c \<and> c \<noteq> dq \<and> c \<noteq> bsl"

lemma b64_val_char [simp]: "n < 64 \<Longrightarrow> b64_val (b64_char n) = Some n"
proof -
  assume "n < 64"
  then consider "n < 26" | "26 \<le> n" "n < 52" | "52 \<le> n" "n < 62" | "n = 62" | "n = 63"
    by linarith
  then show ?thesis
    by cases (auto simp: b64_val_def b64_char_def Let_def)
qed

lemma b64_char_alphabet [simp]: "b64_alphabet (b64_char n)"
proof -
  consider "n < 26" | "26 \<le> n" "n < 52" | "52 \<le> n" "n < 62" | "62 \<le> n"
    by linarith
  then have "graphic (b64_char n) \<and> byte (b64_char n) \<noteq> 34 \<and> byte (b64_char n) \<noteq> 92"
    by cases (auto simp: graphic_def b64_char_def)
  then show ?thesis by (auto simp: b64_alphabet_def)
qed

lemma b64_char_not_pad [simp]: "n < 64 \<Longrightarrow> b64_char n \<noteq> pad"
  using b64_val_char [of n] by (auto simp: b64_val_def)

lemma b64_alphabet_pad: "b64_alphabet pad"
  by (simp add: b64_alphabet_def graphic_def)

lemma b64_encode_alphabet: "list_all b64_alphabet (b64_encode s)"
  by (induction s rule: b64_encode.induct) (simp_all add: b64_alphabet_pad)

lemma b64_alphabet_not_newline: "b64_alphabet c \<Longrightarrow> c \<noteq> CHR 0x0A \<and> c \<noteq> CHR 0x0D"
  by (auto simp: b64_alphabet_def graphic_def)

lemma b64_bytes:
  fixes a b c :: nat
  assumes "a < 256" "b < 256" "c < 256"
  shows "a div 4 < 64" "a mod 4 * 16 + b div 16 < 64" "a mod 4 * 16 < 64"
    "b mod 16 * 4 + c div 64 < 64" "b mod 16 * 4 < 64" "c mod 64 < 64"
  using assms by auto

lemma b64_group3_bytes:
  fixes a b c :: nat
  assumes "a < 256" "b < 256" "c < 256"
  shows "b64_group3 (a div 4) (a mod 4 * 16 + b div 16) (b mod 16 * 4 + c div 64) (c mod 64)
    = [char_of a, char_of b, char_of c]"
proof -
  have "b div 16 < 16" "c div 64 < 4" using assms by auto
  then have "a div 4 * 4 + (a mod 4 * 16 + b div 16) div 16 = a"
    and "(a mod 4 * 16 + b div 16) mod 16 * 16 + (b mod 16 * 4 + c div 64) div 4 = b"
    and "(b mod 16 * 4 + c div 64) mod 4 * 64 + c mod 64 = c"
    by simp_all
  then show ?thesis by (simp only: b64_group3_def)
qed

lemma b64_groups_encode: "b64_groups (b64_encode s) = Some s"
proof (induction s rule: b64_encode.induct)
  case (2 a)
  show ?case
    using b64_bytes [of "byte a" 0 0] b64_group3_bytes [of "byte a" 0 0] by simp
next
  case (3 a b)
  show ?case
    using b64_bytes [of "byte a" "byte b" 0] b64_group3_bytes [of "byte a" "byte b" 0] by simp
next
  case (4 a b c s)
  then show ?case
    using b64_bytes [of "byte a" "byte b" "byte c"]
      b64_group3_bytes [of "byte a" "byte b" "byte c"] by simp
qed simp

lemma b64_roundtrip [simp]: "b64_decode (b64_encode s) = Some s"
proof -
  have "filter (\<lambda>c. c \<noteq> CHR 0x0A \<and> c \<noteq> CHR 0x0D) (b64_encode s) = b64_encode s"
    using b64_encode_alphabet [of s] b64_alphabet_not_newline
    by (auto simp: filter_id_conv list_all_iff)
  then show ?thesis by (simp add: b64_decode_def b64_groups_encode)
qed

end
