(* ===== verification/Config.thy ===== *)
theory Config
  imports GoStrings
begin

text \<open>
  Configuration from the environment and the command line (\<^verbatim>\<open>loadConfig\<close>, \<^verbatim>\<open>env\<close>,
  \<^verbatim>\<open>envInt\<close> of \<^verbatim>\<open>core-go/main.go\<close>) and the set of workers \<^verbatim>\<open>main\<close> starts. The
  environment is a function from a name to its value, empty when unset, as \<^verbatim>\<open>os.Getenv\<close>
  gives it; \<open>args\<close> is \<^verbatim>\<open>os.Args\<close>.
\<close>

type_synonym getenv = "string \<Rightarrow> string"

record config =
  sip_host :: string
  sip_port :: int
  hep_port :: int
  api_port :: int
  hep_tcp_on :: bool
  hep_tcp_port :: int
  hep_tls_on :: bool
  hep_tls_port :: int
  hep_tls_cert :: string
  hep_tls_key :: string
  db_driver :: string
  db_dsn :: string
  api_key :: string
  hep_password :: string
  hep_allow :: "string list"
  echo_all :: bool
  probe_enabled :: bool
  probe_allow_private :: bool
  retention_days :: int
  rate_limit :: int
  trusted_proxy :: string
  static_dir :: string
  concurrent_call_max_age :: int
  ringing_max_age :: int
  kpi_window_min :: int
  asr_exclude_codes :: "int list"
  federation_target :: string

definition env :: "getenv \<Rightarrow> string \<Rightarrow> string \<Rightarrow> string" where
  "env e key fallback = (let v = e key in if v \<noteq> [] then v else fallback)"

definition env_int :: "getenv \<Rightarrow> string \<Rightarrow> int \<Rightarrow> int" where
  "env_int e key fallback =
     (let v = e key in
      if v \<noteq> [] then (case atoi v of Some n \<Rightarrow> n | None \<Rightarrow> fallback) else fallback)"

definition parse_allow :: "string \<Rightarrow> string list" where
  "parse_allow allow = filter (\<lambda>s. s \<noteq> []) (map trim_space (split_on CHR '','' allow))"

definition parse_codes :: "string \<Rightarrow> int list" where
  "parse_codes codes = List.map_filter (\<lambda>s. atoi (trim_space s)) (split_on CHR '','' codes)"

definition arg_int :: "string list \<Rightarrow> nat \<Rightarrow> int \<Rightarrow> int" where
  "arg_int args i old =
     (if length args > i then (case atoi (args ! i) of Some v \<Rightarrow> v | None \<Rightarrow> old) else old)"

definition load_config :: "getenv \<Rightarrow> string list \<Rightarrow> config" where
  "load_config e args =
     \<lparr>sip_host = env e ''ZAMAN_SIP_HOST'' ''0.0.0.0'',
      sip_port = arg_int args 1 (env_int e ''ZAMAN_SIP_PORT'' 5060),
      hep_port = arg_int args 2 (env_int e ''ZAMAN_HEP_PORT'' 9060),
      api_port = arg_int args 3 (env_int e ''ZAMAN_API_PORT'' 9090),
      hep_tcp_on = (env e ''ZAMAN_HEP_TCP'' ''0'' = ''1''),
      hep_tcp_port = env_int e ''ZAMAN_HEP_TCP_PORT'' 9062,
      hep_tls_on = (env e ''ZAMAN_HEP_TLS'' ''0'' = ''1''),
      hep_tls_port = env_int e ''ZAMAN_HEP_TLS_PORT'' 9061,
      hep_tls_cert = env e ''ZAMAN_HEP_TLS_CERT'' '''',
      hep_tls_key = env e ''ZAMAN_HEP_TLS_KEY'' '''',
      db_driver = env e ''ZAMAN_DB_DRIVER'' ''postgres'',
      db_dsn = env e ''ZAMAN_DB_DSN'' ''host=localhost dbname=zaman sslmode=disable'',
      api_key = env e ''ZAMAN_API_KEY'' '''',
      hep_password = env e ''ZAMAN_HEP_PASSWORD'' '''',
      hep_allow = (let allow = env e ''ZAMAN_HEP_ALLOW'' '''' in
                   if allow \<noteq> [] then parse_allow allow else []),
      echo_all = (env e ''ZAMAN_ECHO_ALL'' ''0'' = ''1''),
      probe_enabled = (env e ''ZAMAN_PROBE'' ''0'' = ''1''),
      probe_allow_private = (env e ''ZAMAN_PROBE_ALLOW_PRIVATE'' ''0'' = ''1''),
      retention_days = env_int e ''ZAMAN_DB_RETENTION_DAYS'' 14,
      rate_limit = env_int e ''ZAMAN_RATE_LIMIT'' 100,
      trusted_proxy = env e ''ZAMAN_TRUSTED_PROXY'' '''',
      static_dir = env e ''ZAMAN_STATIC_DIR'' ''web/static'',
      concurrent_call_max_age = env_int e ''ZAMAN_CONCURRENT_CALL_MAX_AGE_SEC'' 7200,
      ringing_max_age = env_int e ''ZAMAN_CONCURRENT_RINGING_MAX_AGE_SEC'' 300,
      kpi_window_min = env_int e ''ZAMAN_KPI_WINDOW_MIN'' 1440,
      asr_exclude_codes = (let codes = env e ''ZAMAN_ASR_EXCLUDE_STATUS_CODES'' '''' in
                           if codes \<noteq> [] then parse_codes codes else [403, 503]),
      federation_target = env e ''ZAMAN_FEDERATION_TARGET'' ''''\<rparr>"

lemma env_unset [simp]: "e k = [] \<Longrightarrow> env e k d = d"
  by (simp add: env_def)

lemma env_int_unset [simp]: "e k = [] \<Longrightarrow> env_int e k d = d"
  by (simp add: env_int_def)

lemma parse_allow_entries: "h \<in> set (parse_allow a) \<Longrightarrow> h \<noteq> [] \<and> CHR '','' \<notin> set h"
  using sep_notin_split_on set_trim_space by (fastforce simp: parse_allow_def)

subsection \<open>The workers\<close>

datatype worker = DbWriter | CacheWorker | SipWorker | HepUdpWorker | HepTcpWorker
  | HepTlsWorker | ApiWorker | AlertWorker

text \<open>The \<^verbatim>\<open>go func\<close>s of \<^verbatim>\<open>main\<close>, in order, with their conditions.\<close>

definition started_workers :: "config \<Rightarrow> worker list" where
  "started_workers cfg =
     [DbWriter, CacheWorker, SipWorker, HepUdpWorker]
     @ (if hep_tcp_port cfg > 0 \<and> hep_tcp_port cfg \<noteq> hep_port cfg then [HepTcpWorker] else [])
     @ (if hep_tls_on cfg \<and> hep_tls_cert cfg \<noteq> [] \<and> hep_tls_key cfg \<noteq> [] then [HepTlsWorker] else [])
     @ [ApiWorker, AlertWorker]"

definition db_channel_capacity :: nat where
  "db_channel_capacity = 4096"

subsection \<open>Properties\<close>

text \<open>With an empty environment every setting has its default, the HEP TCP worker is started with
  \<open>ZAMAN_HEP_TCP\<close> off or on alike, and the TLS worker only with its switch, certificate and key.\<close>

theorem workers_started:
  "started_workers (cfg\<lparr>hep_tcp_on := False\<rparr>) = started_workers (cfg\<lparr>hep_tcp_on := True\<rparr>)
   \<and> (HepTlsWorker \<in> set (started_workers cfg)
        \<longleftrightarrow> hep_tls_on cfg \<and> hep_tls_cert cfg \<noteq> [] \<and> hep_tls_key cfg \<noteq> [])
   \<and> started_workers (load_config (\<lambda>_. []) [])
     = [DbWriter, CacheWorker, SipWorker, HepUdpWorker, HepTcpWorker, ApiWorker, AlertWorker]"
  by (auto simp: started_workers_def load_config_def arg_int_def)

end
