(* ===== verification/Sip.thy ===== *)
theory Sip
  imports Base64 Config
begin

text \<open>
  SIP messages (\<^verbatim>\<open>core-go/sip.go\<close>): parsing the fields the program stores, removing
  credentials before storage, reading the SDP body, building the JSON capture record and
  the echo reply. A line is what stands between two newlines; headers end at the first
  line that is blank after trimming. The Unicode case tables \<open>u\<close> are consulted for bytes
  above ASCII only.
\<close>

abbreviation nl :: char where "nl \<equiv> CHR 0x0A"
abbreviation cr :: char where "cr \<equiv> CHR 0x0D"
abbreviation colon :: char where "colon \<equiv> CHR '':''"
abbreviation space :: char where "space \<equiv> CHR '' ''"

record sip_info =
  si_method :: string
  si_status :: int
  si_kind :: string
  si_call_id :: string
  si_from :: string
  si_to :: string
  si_cseq :: string
  si_ruri :: string

definition empty_sip_info :: sip_info where
  "empty_sip_info = \<lparr>si_method = [], si_status = 0, si_kind = [], si_call_id = [], si_from = [],
     si_to = [], si_cseq = [], si_ruri = []\<rparr>"

subsection \<open>parseSIP\<close>

definition parse_first_line :: "unicode \<Rightarrow> string \<Rightarrow> sip_info" where
  "parse_first_line u line =
     (let first_line = trim_space line;
          parts = split_n 3 space first_line
      in if has_prefix first_line ''SIP/'' then
           empty_sip_info\<lparr>si_kind := ''response'',
             si_status := (if length parts \<ge> 2
                then (case scan_int (parts ! 1) of Some v \<Rightarrow> v | None \<Rightarrow> 0) else 0)\<rparr>
         else
           empty_sip_info\<lparr>si_kind := ''request'',
             si_method := (if length parts \<ge> 1 then to_upper u (parts ! 0) else []),
             si_ruri := (if length parts \<ge> 2 then parts ! 1 else [])\<rparr>)"

definition method_from_cseq :: "unicode \<Rightarrow> string \<Rightarrow> sip_info \<Rightarrow> sip_info" where
  "method_from_cseq u v info =
     (if si_kind info = ''response'' \<and> si_method info = [] then
        (let parts = str_fields v in
         if length parts \<ge> 2 then info\<lparr>si_method := to_upper u (parts ! 1)\<rparr> else info)
      else info)"

definition apply_header :: "unicode \<Rightarrow> string \<Rightarrow> string \<Rightarrow> sip_info \<Rightarrow> sip_info" where
  "apply_header u name v info =
     (let key = to_lower u name in
      if key = ''call-id'' \<or> key = ''i'' then info\<lparr>si_call_id := v\<rparr>
      else if key = ''from'' \<or> key = ''f'' then info\<lparr>si_from := v\<rparr>
      else if key = ''to'' \<or> key = ''t'' then info\<lparr>si_to := v\<rparr>
      else if key = ''cseq'' then method_from_cseq u v (info\<lparr>si_cseq := v\<rparr>)
      else info)"

text \<open>A header line after trimming: its name and value, when its colon is not the first byte.\<close>

definition header_of :: "string \<Rightarrow> (string \<times> string) option" where
  "header_of line =
     (case index_byte colon line of
        Some i \<Rightarrow> (if i < 1 then None
                   else Some (trim_space (take i line), trim_space (drop (Suc i) line)))
      | None \<Rightarrow> None)"

fun parse_headers :: "unicode \<Rightarrow> string list \<Rightarrow> sip_info \<Rightarrow> sip_info" where
  "parse_headers u [] info = info"
| "parse_headers u (l # ls) info =
     (let line = trim_space l in
      if line = [] then info
      else (case header_of line of
              None \<Rightarrow> parse_headers u ls info
            | Some (name, v) \<Rightarrow> parse_headers u ls (apply_header u name v info)))"

definition parse_sip :: "unicode \<Rightarrow> string \<Rightarrow> sip_info" where
  "parse_sip u msg =
     (let lines = split_n 2 nl msg;
          info = parse_first_line u (lines ! 0)
      in if length lines > 1 then parse_headers u (split_on nl (lines ! 1)) info else info)"

subsection \<open>redactSIP\<close>

definition is_credential_line :: "unicode \<Rightarrow> string \<Rightarrow> bool" where
  "is_credential_line u line =
     (let lower = to_lower u (trim_space line) in
      has_prefix lower ''authorization:'' \<or> has_prefix lower ''proxy-authorization:'')"

fun redact_lines :: "unicode \<Rightarrow> string list \<Rightarrow> string" where
  "redact_lines u [] = []"
| "redact_lines u (l # ls) =
     (if is_credential_line u l then redact_lines u ls else l @ nl # redact_lines u ls)"

definition redact_sip :: "unicode \<Rightarrow> string \<Rightarrow> string" where
  "redact_sip u msg = redact_lines u (split_on nl msg)"

subsection \<open>sdpExtract\<close>

record sdp =
  codecs :: "string list"
  media_port :: int
  srtp :: bool

definition sdp_line :: "sdp \<Rightarrow> string \<Rightarrow> sdp" where
  "sdp_line d l =
     (let line = trim_space l;
          d1 = (if has_prefix line ''m=audio '' then
                  (let parts = str_fields line;
                       d0 = (if length parts \<ge> 3
                             then (case scan_int (parts ! 1) of
                                     Some p \<Rightarrow> d\<lparr>media_port := p\<rparr> | None \<Rightarrow> d) else d)
                   in if contains line ''SAVP'' \<or> contains line ''savp'' then d0\<lparr>srtp := True\<rparr> else d0)
                else d);
          d2 = (if has_prefix line ''a=rtpmap:'' then
                  (let parts = split_n 2 space line in
                   if length parts = 2
                   then d1\<lparr>codecs := codecs d1 @ [split_n 2 CHR ''/'' (parts ! 1) ! 0]\<rparr> else d1)
                else d1)
      in if has_prefix line ''a=crypto:'' then d2\<lparr>srtp := True\<rparr> else d2)"

definition sdp_extract :: "string \<Rightarrow> sdp" where
  "sdp_extract msg =
     (let none = \<lparr>codecs = [], media_port = 0, srtp = False\<rparr>;
          at = (case index_str [cr, nl, cr, nl] msg of
                  Some i \<Rightarrow> Some i | None \<Rightarrow> index_str [nl, nl] msg)
      in case at of None \<Rightarrow> none
         | Some i \<Rightarrow> fold (\<lambda>l d. sdp_line d l) (split_on nl (drop i msg)) none)"

subsection \<open>Echo replies\<close>

definition echo_allowed :: "unicode \<Rightarrow> getenv \<Rightarrow> config \<Rightarrow> string \<Rightarrow> bool" where
  "echo_allowed u e cfg m =
     (if echo_all cfg then True
      else (let echo_methods = env e ''ZAMAN_ECHO_METHODS'' ''OPTIONS'' in
            if equal_fold u echo_methods ''ALL'' then True
            else list_ex (\<lambda>x. equal_fold u (trim_space x) m) (split_on CHR '','' echo_methods)))"

record echo_headers =
  eh_via :: string
  eh_from :: string
  eh_to :: string
  eh_call_id :: string
  eh_cseq :: string

definition echo_header :: "unicode \<Rightarrow> string \<Rightarrow> string \<Rightarrow> echo_headers \<Rightarrow> echo_headers" where
  "echo_header u raw_name v h =
     (let name = to_lower u raw_name in
      if name = ''via'' \<or> name = ''v'' then (if eh_via h = [] then h\<lparr>eh_via := v\<rparr> else h)
      else if name = ''from'' \<or> name = ''f'' then h\<lparr>eh_from := v\<rparr>
      else if name = ''to'' \<or> name = ''t'' then h\<lparr>eh_to := v\<rparr>
      else if name = ''call-id'' \<or> name = ''i'' then h\<lparr>eh_call_id := v\<rparr>
      else if name = ''cseq'' then h\<lparr>eh_cseq := v\<rparr>
      else h)"

fun echo_scan :: "unicode \<Rightarrow> string list \<Rightarrow> echo_headers \<Rightarrow> echo_headers" where
  "echo_scan u [] h = h"
| "echo_scan u (l # ls) h =
     (let line = trim_space l in
      if line = [] then h
      else (case header_of line of
              None \<Rightarrow> echo_scan u ls h
            | Some (name, v) \<Rightarrow> echo_scan u ls (echo_header u name v h)))"

definition no_echo_headers :: echo_headers where
  "no_echo_headers = \<lparr>eh_via = [], eh_from = [], eh_to = [], eh_call_id = [], eh_cseq = []\<rparr>"

definition version :: string where
  "version = ''0.4.0''"

definition crlf :: string where
  "crlf = [cr, nl]"

text \<open>\<^verbatim>\<open>buildEcho\<close>: empty unless the message is a request.\<close>

definition build_echo :: "unicode \<Rightarrow> string \<Rightarrow> string \<Rightarrow> int \<Rightarrow> string" where
  "build_echo u msg local_host local_port =
     (let info = parse_sip u msg in
      if si_kind info \<noteq> ''request'' then []
      else
        (let h = echo_scan u (split_on nl msg) no_echo_headers;
             status = (if si_method info = ''REGISTER'' then ''401 Unauthorized'' else ''200 OK'')
         in ''SIP/2.0 '' @ status @ crlf
            @ ''Via: '' @ eh_via h @ crlf
            @ ''From: '' @ eh_from h @ crlf
            @ ''To: '' @ eh_to h @ crlf
            @ ''Call-ID: '' @ eh_call_id h @ crlf
            @ ''CSeq: '' @ eh_cseq h @ crlf
            @ ''Contact: <sip:'' @ local_host @ colon # show_int local_port @ ''>'' @ crlf
            @ ''Server: Zaman/'' @ version @ crlf
            @ (if si_method info = ''OPTIONS''
               then ''Allow: INVITE,ACK,BYE,CANCEL,OPTIONS,REGISTER,INFO'' @ crlf else [])
            @ ''Content-Length: 0'' @ crlf @ crlf))"

subsection \<open>Redaction\<close>

lemma split_on_redact_lines:
  "\<forall>l \<in> set ls. nl \<notin> set l \<Longrightarrow>
   split_on nl (redact_lines u ls) = filter (\<lambda>l. \<not> is_credential_line u l) ls @ [[]]"
  by (induction ls) (simp_all add: split_on_append split_on_no_sep)

lemma split_on_redact:
  "split_on nl (redact_sip u msg)
   = filter (\<lambda>l. \<not> is_credential_line u l) (split_on nl msg) @ [[]]"
  by (simp add: redact_sip_def split_on_redact_lines sep_notin_split_on)

lemma to_lower_append: "ascii a \<Longrightarrow> to_lower u (a @ s) = map lower_char a @ to_lower u s"
proof (induction a)
  case (Cons c a)
  then have "encode_rune (lower_rune u (byte c)) = [lower_char c]"
    by (auto simp: lower_rune_def lower_char_def)
  with Cons show ?case by (simp add: to_lower_def runes_Cons)
qed (simp add: to_lower_def)

lemma credential_line_prefix:
  assumes "ascii (b # a)" "graphic b" "map lower_char (b # a @ [colon]) = p"
    and "p = ''authorization:'' \<or> p = ''proxy-authorization:''"
  shows "is_credential_line u (b # a @ colon # v)"
proof -
  have "graphic colon" by (simp add: graphic_def)
  then obtain w where "trim_space (b # a @ colon # v) = (b # a @ [colon]) @ w"
    using trim_space_keeps [OF assms(2)] by fastforce
  moreover have "ascii (b # a @ [colon])" using assms(1) by simp
  ultimately have "to_lower u (trim_space (b # a @ colon # v)) = p @ to_lower u w"
    using assms(3) to_lower_append by metis
  then show ?thesis using assms(4) by (auto simp: is_credential_line_def Let_def)
qed

subsection \<open>Parsing a message laid out line by line\<close>

definition header_line :: "string \<Rightarrow> string \<Rightarrow> string" where
  "header_line n v = n @ '': '' @ v @ [cr]"

definition render_msg :: "string \<Rightarrow> (string \<times> string) list \<Rightarrow> string \<Rightarrow> string" where
  "render_msg start hs body =
     start @ crlf @ concat (map (\<lambda>(n, v). header_line n v @ [nl]) hs) @ crlf @ body"

definition ok_header :: "string \<times> string \<Rightarrow> bool" where
  "ok_header h \<longleftrightarrow> trimmed (fst h) \<and> clean (snd h) \<and> colon \<notin> set (fst h)
     \<and> nl \<notin> set (fst h) \<and> nl \<notin> set (snd h)"

lemma trim_right_cr: "trim_right (s @ [cr]) = trim_right s"
  by (rule trim_right_ws1) (rule ws_back_cr)

lemma trim_right_space: "trim_right (s @ [space]) = trim_right s"
  by (rule trim_right_ws1) (simp add: ws_back_def ws_runes_def has_suffix_def)

lemma graphic_colon [simp]: "graphic colon"
  by (simp add: graphic_def)

lemma ws_front_append_graphic: "trimmed n \<Longrightarrow> ws_front (n @ s) = 0"
  using ws_front_graphic [of "hd n" "tl n @ s"] by (cases n) (auto simp: trimmed_def)

lemma trim_space_name:
  "trimmed n \<Longrightarrow> trim_space (n @ s) = trim_right (n @ s)"
  by (simp add: trim_space_def trim_left_id ws_front_append_graphic)

lemma trim_space_header_line:
  assumes "ok_header (n, v)"
  shows "\<exists>t. trim_space (header_line n v) = n @ colon # t \<and> trim_space t = v"
proof -
  have "trimmed n" and v: "clean v" using assms by (auto simp: ok_header_def)
  then have eq: "trim_space (header_line n v) = trim_right (n @ colon # space # v)"
    unfolding header_line_def using trim_right_cr [of "n @ colon # space # v"]
    by (simp add: trim_space_name)
  show ?thesis
  proof (cases "v = []")
    case True
    have "trim_right (n @ [colon]) = n @ [colon]"
      by (rule trim_right_id, rule ws_back_graphic) simp
    with True eq trim_right_space [of "n @ [colon]"] show ?thesis by auto
  next
    case False
    then have "ws_back (n @ colon # space # v) = 0"
      using v ws_back_after_ascii [of space v "n @ [colon]"] by (simp add: clean_def)
    moreover have "trim_space (space # v) = v"
      using v by (simp add: trim_space_def trim_left_ws1 ws_front_space trim_left_id trim_right_id clean_def)
    ultimately show ?thesis using eq by (auto simp: trim_right_id)
  qed
qed

lemma header_of_line:
  assumes "ok_header (n, v)"
  shows "trim_space (header_line n v) \<noteq> [] \<and> header_of (trim_space (header_line n v)) = Some (n, v)"
proof -
  obtain t where t: "trim_space (header_line n v) = n @ colon # t" "trim_space t = v"
    using trim_space_header_line [OF assms] by blast
  have "n \<noteq> []" "colon \<notin> set n" "trim_space n = n"
    using assms by (auto simp: ok_header_def trimmed_def trim_space_trimmed)
  then show ?thesis
    using t by (simp add: header_of_def index_byte_append)
qed

lemma parse_headers_lines:
  "list_all ok_header hs \<Longrightarrow>
   parse_headers u (map (\<lambda>(n, v). header_line n v) hs @ [cr] # rest) info
   = fold (\<lambda>(n, v). apply_header u n v) hs info"
proof (induction hs arbitrary: info)
  case Nil
  have "trim_space [cr] = []"
    using trim_right_cr [of "[]"]
    by (simp add: trim_space_def trim_left.simps ws_front_def ws_runes_def trim_right_id)
  then show ?case by simp
next
  case (Cons h hs)
  obtain n v where "h = (n, v)" by (cases h)
  with Cons show ?case
    using header_of_line [of n v] by (simp add: Let_def)
qed

lemma split_on_header_lines:
  "list_all ok_header hs \<Longrightarrow>
   split_on nl (concat (map (\<lambda>(n, v). header_line n v @ [nl]) hs) @ crlf @ body)
   = map (\<lambda>(n, v). header_line n v) hs @ [cr] # split_on nl body"
proof (induction hs)
  case Nil
  show ?case by (simp add: crlf_def)
next
  case (Cons h hs)
  obtain n v where h: "h = (n, v)" by (cases h)
  then have "nl \<notin> set (header_line n v)"
    using Cons.prems by (auto simp: header_line_def ok_header_def)
  with h Cons show ?case by (simp add: split_on_append split_on_no_sep)
qed

lemma parse_first_line_cr: "trimmed start \<Longrightarrow> parse_first_line u (start @ [cr]) = parse_first_line u start"
  by (simp add: parse_first_line_def trim_space_line trim_space_trimmed)

lemma parse_sip_render:
  assumes "trimmed start" "nl \<notin> set start" "list_all ok_header hs"
  shows "parse_sip u (render_msg start hs body)
    = fold (\<lambda>(n, v). apply_header u n v) hs (parse_first_line u start)"
proof -
  let ?rest = "concat (map (\<lambda>(n, v). header_line n v @ [nl]) hs) @ crlf @ body"
  have "render_msg start hs body = (start @ [cr]) @ nl # ?rest"
    by (simp add: render_msg_def crlf_def)
  moreover have "nl \<notin> set (start @ [cr])" using assms(2) by simp
  ultimately have "split_n 2 nl (render_msg start hs body) = [start @ [cr], ?rest]"
    using split_n_append [of nl "start @ [cr]" 0 ?rest] by (simp add: numeral_2_eq_2)
  then show ?thesis
    using assms
    by (simp add: parse_sip_def split_on_header_lines parse_headers_lines parse_first_line_cr)
qed

subsection \<open>The echo reply is a response to the request\<close>

definition echo_ok :: "echo_headers \<Rightarrow> bool" where
  "echo_ok h \<longleftrightarrow> list_all (\<lambda>v. clean v \<and> nl \<notin> set v)
     [eh_via h, eh_from h, eh_to h, eh_call_id h, eh_cseq h]"

lemma echo_header_ok: "echo_ok h \<Longrightarrow> clean v \<Longrightarrow> nl \<notin> set v \<Longrightarrow> echo_ok (echo_header u n v h)"
  by (simp add: echo_ok_def echo_header_def Let_def)

lemma header_of_value:
  "header_of l = Some (n, v) \<Longrightarrow> nl \<notin> set l \<Longrightarrow> clean v \<and> nl \<notin> set v"
  using set_trim_space set_drop_subset
  by (fastforce simp: header_of_def clean_trim_space split: option.splits if_splits)

lemma echo_scan_ok:
  "echo_ok h \<Longrightarrow> \<forall>l \<in> set ls. nl \<notin> set l \<Longrightarrow> echo_ok (echo_scan u ls h)"
proof (induction ls arbitrary: h)
  case (Cons l ls)
  have "nl \<notin> set (trim_space l)" using Cons.prems(2) set_trim_space by fastforce
  then show ?case
    using Cons
    by (auto simp: Let_def split: option.splits intro!: echo_header_ok dest: header_of_value)
qed simp

definition echo_of :: "unicode \<Rightarrow> string \<Rightarrow> echo_headers" where
  "echo_of u msg = echo_scan u (split_on nl msg) no_echo_headers"

lemma echo_of_ok: "echo_ok (echo_of u msg)"
  unfolding echo_of_def
  by (rule echo_scan_ok) (auto simp: echo_ok_def no_echo_headers_def sep_notin_split_on)

definition echo_status_line :: "bool \<Rightarrow> string" where
  "echo_status_line register = ''SIP/2.0 '' @ (if register then ''401 Unauthorized'' else ''200 OK'')"

definition echo_reply_headers :: "echo_headers \<Rightarrow> string \<Rightarrow> int \<Rightarrow> bool \<Rightarrow> (string \<times> string) list" where
  "echo_reply_headers h host port allow =
     [(''Via'', eh_via h), (''From'', eh_from h), (''To'', eh_to h), (''Call-ID'', eh_call_id h),
      (''CSeq'', eh_cseq h), (''Contact'', ''<sip:'' @ host @ colon # show_int port @ ''>''),
      (''Server'', ''Zaman/'' @ version)]
     @ (if allow then [(''Allow'', ''INVITE,ACK,BYE,CANCEL,OPTIONS,REGISTER,INFO'')] else [])
     @ [(''Content-Length'', ''0'')]"

lemma build_echo_render:
  assumes "si_kind (parse_sip u msg) = ''request''"
  shows "build_echo u msg host port =
    render_msg (echo_status_line (si_method (parse_sip u msg) = ''REGISTER''))
      (echo_reply_headers (echo_of u msg) host port (si_method (parse_sip u msg) = ''OPTIONS'')) []"
  using assms
  by (simp add: build_echo_def render_msg_def echo_status_line_def echo_reply_headers_def
      header_line_def crlf_def echo_of_def Let_def)

lemma trimmedI: "graphic b \<Longrightarrow> graphic c \<Longrightarrow> trimmed (b # a @ [c])"
  by (simp add: trimmed_def)

lemma show_int_no_newline: "nl \<notin> set (show_int n)"
  using show_int_num_char [of n] by (auto simp: list_all_iff num_char_def is_digit_def)

lemma trimmed_literals:
  "trimmed ''Via''" "trimmed ''From''" "trimmed ''To''" "trimmed ''Call-ID''" "trimmed ''CSeq''"
  "trimmed ''Contact''" "trimmed ''Server''" "trimmed ''Allow''" "trimmed ''Content-Length''"
  "trimmed ''0''" "trimmed (''Zaman/'' @ version)"
  "trimmed ''INVITE,ACK,BYE,CANCEL,OPTIONS,REGISTER,INFO''"
  "trimmed (''<sip:'' @ host @ colon # show_int port @ ''>'')"
  by (simp_all add: trimmed_def graphic_def version_def)

lemma echo_reply_headers_ok:
  assumes "echo_ok h" "nl \<notin> set host"
  shows "list_all ok_header (echo_reply_headers h host port allow)"
  using assms show_int_no_newline [of port]
    trimmed_literals [THEN trimmed_clean] trimmed_literals
  by (simp add: echo_reply_headers_def ok_header_def echo_ok_def version_def)

lemma echo_status_line_ok: "trimmed (echo_status_line b)" "nl \<notin> set (echo_status_line b)"
  by (simp_all add: echo_status_line_def trimmed_def graphic_def)

lemma parse_echo_status_line:
  "parse_first_line u (echo_status_line b)
   = empty_sip_info\<lparr>si_kind := ''response'', si_status := (if b then 401 else 200)\<rparr>"
  using trim_space_trimmed [OF echo_status_line_ok(1) [of b]]
  by (cases b)
    (simp_all add: parse_first_line_def echo_status_line_def numeral_3_eq_3 scan_int_def
      trim_left.simps ws_front_def ws_runes_def is_digit_def atoi_def parse_int64_def digit_val_def)

lemma apply_header_literals:
  "apply_header u ''Via'' v i = i"
  "apply_header u ''From'' v i = i\<lparr>si_from := v\<rparr>"
  "apply_header u ''To'' v i = i\<lparr>si_to := v\<rparr>"
  "apply_header u ''Call-ID'' v i = i\<lparr>si_call_id := v\<rparr>"
  "apply_header u ''CSeq'' v i = method_from_cseq u v (i\<lparr>si_cseq := v\<rparr>)"
  "apply_header u ''Contact'' v i = i"
  "apply_header u ''Server'' v i = i"
  "apply_header u ''Allow'' v i = i"
  "apply_header u ''Content-Length'' v i = i"
  by (simp_all add: apply_header_def to_lower_ascii lower_char_def char_of_def bit_Suc_0_iff)

lemma parse_build_echo:
  assumes "si_kind (parse_sip u msg) = ''request''" "nl \<notin> set host"
  shows "parse_sip u (build_echo u msg host port) =
    method_from_cseq u (eh_cseq (echo_of u msg))
      (empty_sip_info\<lparr>si_kind := ''response'',
         si_status := (if si_method (parse_sip u msg) = ''REGISTER'' then 401 else 200),
         si_from := eh_from (echo_of u msg), si_to := eh_to (echo_of u msg),
         si_call_id := eh_call_id (echo_of u msg), si_cseq := eh_cseq (echo_of u msg)\<rparr>)"
proof -
  let ?info = "parse_sip u msg"
  let ?hs = "echo_reply_headers (echo_of u msg) host port (si_method ?info = ''OPTIONS'')"
  have "parse_sip u (build_echo u msg host port) = fold (\<lambda>(n, v). apply_header u n v) ?hs
      (parse_first_line u (echo_status_line (si_method ?info = ''REGISTER'')))"
    using assms(2)
    by (subst build_echo_render [OF assms(1)])
      (rule parse_sip_render [OF echo_status_line_ok echo_reply_headers_ok [OF echo_of_ok]])
  then show ?thesis
    by (simp add: parse_echo_status_line echo_reply_headers_def apply_header_literals
        method_from_cseq_def Let_def)
qed

subsection \<open>Properties\<close>

text \<open>C31: what is stored of a message is its lines in order, without those that begin, after
  trimming and in any case, with \<open>Authorization:\<close> or \<open>Proxy-Authorization:\<close>, each ended
  by a newline.\<close>

theorem redaction_removes_credentials:
  "split_on nl (redact_sip u msg)
     = filter (\<lambda>l. \<not> is_credential_line u l) (split_on nl msg) @ [[]]
   \<and> is_credential_line u (''Authorization:'' @ v)
   \<and> is_credential_line u (''  Proxy-Authorization: '' @ v) = is_credential_line u (''Proxy-Authorization: '' @ v)
   \<and> is_credential_line u (''PROXY-AUTHORIZATION:'' @ v)"
proof -
  have "is_credential_line u (CHR ''A'' # ''uthorization'' @ colon # v)"
    by (rule credential_line_prefix [where p = "''authorization:''"])
      (simp_all add: graphic_def lower_char_def char_of_def bit_Suc_0_iff)
  moreover have "is_credential_line u (CHR ''P'' # ''ROXY-AUTHORIZATION'' @ colon # v)"
    by (rule credential_line_prefix [where p = "''proxy-authorization:''"])
      (simp_all add: graphic_def lower_char_def char_of_def bit_Suc_0_iff)
  moreover have "trim_space (''  Proxy-Authorization: '' @ v) = trim_space (''Proxy-Authorization: '' @ v)"
    by (simp add: trim_space_def trim_left_ws1 ws_front_space)
  ultimately show ?thesis by (simp add: split_on_redact is_credential_line_def)
qed


definition options_request :: string where
  "options_request = render_msg ''OPTIONS sip:b@example.org SIP/2.0''
     [(''Via'', ''SIP/2.0/UDP 192.0.2.1''), (''From'', ''<sip:a@example.org>''),
      (''To'', ''<sip:b@example.org>''), (''Call-ID'', ''c1''), (''CSeq'', ''7 OPTIONS'')] []"

lemma options_request_kind: "si_kind (parse_sip ascii_tables options_request) = ''request''"
  by code_simp


end
