(* ===== verification/Capture.thy ===== *)
theory Capture
  imports Sip
begin

text \<open>
  The capture record: the JSON text \<^verbatim>\<open>makeRecord\<close> (\<^verbatim>\<open>core-go/sip.go\<close>) writes and the
  \<^verbatim>\<open>CaptureRecord\<close> the database writer (\<^verbatim>\<open>core-go/db.go\<close>) reads back with
  \<^verbatim>\<open>json.Unmarshal\<close>. The main fact is that the two agree on every message: the text
  always parses, and each field comes back as it went in (with invalid UTF-8 replaced).
\<close>

definition kv_str :: "string \<Rightarrow> string \<Rightarrow> string" where
  "kv_str k v = dq # k @ [dq, colon, dq] @ v @ [dq]"

definition kv_num :: "string \<Rightarrow> int \<Rightarrow> string" where
  "kv_num k n = dq # k @ [dq, colon] @ show_int n"

text \<open>The stored method: \<^verbatim>\<open>fmt.Sprintf("%d %s", status/100, method)\<close> for a response.\<close>

definition record_method :: "sip_info \<Rightarrow> string" where
  "record_method info =
     (if si_kind info = ''response'' \<and> si_status info > 0 \<and> si_method info \<noteq> []
      then show_int (si_status info div 100) @ space # si_method info
      else si_method info)"

record capture_args =
  ca_src :: string
  ca_dst :: string
  ca_transport :: string
  ca_msg :: string
  ca_agent :: string
  ca_proto :: string
  ca_ts_ms :: int
  ca_node_id :: int
  ca_node_name :: string
  ca_correlation :: string

definition make_record :: "unicode \<Rightarrow> capture_args \<Rightarrow> string" where
  "make_record u a =
     (let redacted = redact_sip u (ca_msg a);
          info = parse_sip u (ca_msg a);
          raw64 = b64_encode redacted;
          method = record_method info
      in ''{'' @ kv_num ''ts_ms'' (ca_ts_ms a)
         @ '','' @ kv_str ''src'' (jesc (ca_src a))
         @ '','' @ kv_str ''dst'' (jesc (ca_dst a))
         @ '','' @ kv_str ''transport'' (jesc (ca_transport a))
         @ '','' @ kv_str ''proto'' (jesc (ca_proto a))
         @ '','' @ kv_str ''agent'' (jesc (ca_agent a))
         @ '','' @ kv_str ''kind'' (si_kind info)
         @ '','' @ kv_str ''method'' (jesc method)
         @ '','' @ kv_num ''status'' (si_status info)
         @ (if si_ruri info \<noteq> [] then '','' @ kv_str ''ruri'' (jesc (si_ruri info)) else [])
         @ (if si_call_id info \<noteq> [] then '','' @ kv_str ''call_id'' (jesc (si_call_id info)) else [])
         @ (if si_from info \<noteq> [] then '','' @ kv_str ''from'' (jesc (si_from info)) else [])
         @ (if si_to info \<noteq> [] then '','' @ kv_str ''to'' (jesc (si_to info)) else [])
         @ (if si_cseq info \<noteq> [] then '','' @ kv_str ''cseq'' (jesc (si_cseq info)) else [])
         @ (if ca_node_id a > 0 then '','' @ kv_num ''hep_node_id'' (ca_node_id a) else [])
         @ (if ca_node_name a \<noteq> [] then '','' @ kv_str ''hep_node'' (jesc (ca_node_name a)) else [])
         @ (if ca_correlation a \<noteq> [] then '','' @ kv_str ''hep_cid'' (jesc (ca_correlation a)) else [])
         @ '','' @ kv_num ''size'' (int (length (ca_msg a)))
         @ '','' @ kv_str ''raw_b64'' raw64 @ ''}'')"

subsection \<open>The record as a list of members\<close>

definition opt_member :: "bool \<Rightarrow> string \<Rightarrow> jval \<Rightarrow> (string \<times> jval) list" where
  "opt_member c k v = (if c then [(k, v)] else [])"

definition record_members :: "unicode \<Rightarrow> capture_args \<Rightarrow> (string \<times> jval) list" where
  "record_members u a =
     (let info = parse_sip u (ca_msg a) in
      [(''ts_ms'', JNum (ca_ts_ms a)), (''src'', JStr (ca_src a)), (''dst'', JStr (ca_dst a)),
       (''transport'', JStr (ca_transport a)), (''proto'', JStr (ca_proto a)),
       (''agent'', JStr (ca_agent a)), (''kind'', JStr (si_kind info)),
       (''method'', JStr (record_method info)), (''status'', JNum (si_status info))]
      @ opt_member (si_ruri info \<noteq> []) ''ruri'' (JStr (si_ruri info))
      @ opt_member (si_call_id info \<noteq> []) ''call_id'' (JStr (si_call_id info))
      @ opt_member (si_from info \<noteq> []) ''from'' (JStr (si_from info))
      @ opt_member (si_to info \<noteq> []) ''to'' (JStr (si_to info))
      @ opt_member (si_cseq info \<noteq> []) ''cseq'' (JStr (si_cseq info))
      @ opt_member (ca_node_id a > 0) ''hep_node_id'' (JNum (ca_node_id a))
      @ opt_member (ca_node_name a \<noteq> []) ''hep_node'' (JStr (ca_node_name a))
      @ opt_member (ca_correlation a \<noteq> []) ''hep_cid'' (JStr (ca_correlation a))
      @ [(''size'', JNum (int (length (ca_msg a)))),
         (''raw_b64'', JStr (b64_encode (redact_sip u (ca_msg a))))])"

text \<open>Text that \<open>jesc\<close> leaves alone: printable ASCII without quote and backslash.\<close>

lemma graphic_ascii: "graphic c \<Longrightarrow> byte c < 0x80"
  by (simp add: graphic_def)

lemma jesc_rune_plain:
  assumes "graphic c \<or> c = space" "c \<noteq> dq" "c \<noteq> bsl"
  shows "jesc_rune (byte c) = [c]"
proof -
  have "byte c \<noteq> byte dq" "byte c \<noteq> byte bsl"
    using assms(2,3) by (simp_all only: of_char_eq_iff not_False_eq_True)
  then have "byte c \<noteq> 34" "byte c \<noteq> 92" by simp_all
  moreover have "0x20 \<le> byte c" "byte c < 0x80"
    using assms(1) by (auto simp: graphic_def)
  ultimately show ?thesis by (simp add: jesc_rune_def)
qed

lemma jesc_plain: "list_all b64_alphabet s \<Longrightarrow> jesc s = s"
proof (induction s)
  case (Cons c s)
  then have "ascii (c # s)"
    by (auto simp: list_all_iff ascii_def b64_alphabet_def graphic_ascii)
  with Cons show ?case
    by (simp add: jesc_def runes_ascii jesc_rune_plain b64_alphabet_def)
qed (simp add: jesc_def)

lemma sanitize_plain: "list_all b64_alphabet s \<Longrightarrow> sanitize s = s"
  by (rule sanitize_ascii) (auto simp: list_all_iff ascii_def b64_alphabet_def graphic_ascii)

lemma plain_literals [simp]:
  "list_all b64_alphabet ''ts_ms''" "list_all b64_alphabet ''src''" "list_all b64_alphabet ''dst''"
  "list_all b64_alphabet ''transport''" "list_all b64_alphabet ''proto''"
  "list_all b64_alphabet ''agent''" "list_all b64_alphabet ''kind''"
  "list_all b64_alphabet ''method''" "list_all b64_alphabet ''status''"
  "list_all b64_alphabet ''ruri''" "list_all b64_alphabet ''call_id''"
  "list_all b64_alphabet ''from''" "list_all b64_alphabet ''to''" "list_all b64_alphabet ''cseq''"
  "list_all b64_alphabet ''hep_node_id''" "list_all b64_alphabet ''hep_node''"
  "list_all b64_alphabet ''hep_cid''" "list_all b64_alphabet ''size''"
  "list_all b64_alphabet ''raw_b64''" "list_all b64_alphabet ''request''"
  "list_all b64_alphabet ''response''"
  by (simp_all add: b64_alphabet_def graphic_def)

lemmas sanitize_literals = plain_literals [THEN sanitize_plain]

lemma kv_str_member: "list_all b64_alphabet k \<Longrightarrow> kv_str k (jesc v) = print_member (k, JStr v)"
  by (simp add: kv_str_def print_member_def print_val_def jesc_plain)

lemma kv_num_member: "list_all b64_alphabet k \<Longrightarrow> kv_num k n = print_member (k, JNum n)"
  by (simp add: kv_num_def print_member_def print_val_def jesc_plain)

lemma parse_headers_kind [simp]: "si_kind (parse_headers u ls i) = si_kind i"
proof (induction ls arbitrary: i)
  case (Cons l ls)
  have "si_kind (apply_header u n v i) = si_kind i" for n v
    by (simp add: apply_header_def method_from_cseq_def Let_def)
  with Cons show ?case by (auto simp: Let_def split: option.splits)
qed simp

lemma parse_sip_kind: "si_kind (parse_sip u msg) = ''request'' \<or> si_kind (parse_sip u msg) = ''response''"
  by (simp add: parse_sip_def parse_first_line_def Let_def)

lemma kind_plain: "list_all b64_alphabet (si_kind (parse_sip u msg))"
  using parse_sip_kind [of u msg] by (elim disjE) (simp_all only: plain_literals)

lemma kv_str_plain: "list_all b64_alphabet v \<Longrightarrow> kv_str k v = kv_str k (jesc v)"
  by (simp add: jesc_plain)

lemma join_comma: "join '','' (x # ys) = x @ concat (map (\<lambda>y. CHR '','' # y) ys)"
  by (induction ys arbitrary: x) auto

lemma opt_member_text:
  "concat (map (\<lambda>y. CHR '','' # y) (map print_member (opt_member c k v)))
   = (if c then CHR '','' # print_member (k, v) else [])"
  by (simp add: opt_member_def)

lemma make_record_members: "make_record u a = print_object (record_members u a)"
proof -
  have kind: "kv_str ''kind'' (si_kind (parse_sip u (ca_msg a)))
      = print_member (''kind'', JStr (si_kind (parse_sip u (ca_msg a))))"
    by (subst kv_str_plain [OF kind_plain], rule kv_str_member, simp only: plain_literals)
  have raw: "kv_str ''raw_b64'' (b64_encode s) = print_member (''raw_b64'', JStr (b64_encode s))" for s
    by (subst kv_str_plain [OF b64_encode_alphabet], rule kv_str_member, simp only: plain_literals)
  show ?thesis
    unfolding make_record_def record_members_def print_object_def Let_def
    by (simp only: kind raw kv_str_member kv_num_member plain_literals list.map map_append
        append_Cons append_Nil join_comma concat_append concat.simps opt_member_text append_assoc
        if_distrib [of "\<lambda>x. x @ _"])
qed

subsection \<open>Reading it back\<close>

record capture_record =
  cr_ts_ms :: int
  cr_src :: string
  cr_dst :: string
  cr_transport :: string
  cr_proto :: string
  cr_agent :: string
  cr_kind :: string
  cr_method :: string
  cr_status :: int
  cr_call_id :: string
  cr_from :: string
  cr_to :: string
  cr_cseq :: string
  cr_ruri :: string
  cr_hep_node_id :: int
  cr_hep_node :: string
  cr_hep_cid :: string
  cr_size :: int
  cr_raw_b64 :: string

definition zero_record :: capture_record where
  "zero_record = \<lparr>cr_ts_ms = 0, cr_src = [], cr_dst = [], cr_transport = [], cr_proto = [],
     cr_agent = [], cr_kind = [], cr_method = [], cr_status = 0, cr_call_id = [], cr_from = [],
     cr_to = [], cr_cseq = [], cr_ruri = [], cr_hep_node_id = 0, cr_hep_node = [],
     cr_hep_cid = [], cr_size = 0, cr_raw_b64 = []\<rparr>"

text \<open>
  \<^verbatim>\<open>json.Unmarshal(text, &rec)\<close>: each member sets the field its tag names; a member of the
  other type is an error; an unknown member is skipped.
\<close>

definition string_field :: "string \<Rightarrow> ((string \<Rightarrow> string) \<Rightarrow> capture_record \<Rightarrow> capture_record) option" where
  "string_field k = map_of
     [(''src'', cr_src_update), (''dst'', cr_dst_update), (''transport'', cr_transport_update),
      (''proto'', cr_proto_update), (''agent'', cr_agent_update), (''kind'', cr_kind_update),
      (''method'', cr_method_update), (''call_id'', cr_call_id_update), (''from'', cr_from_update),
      (''to'', cr_to_update), (''cseq'', cr_cseq_update), (''ruri'', cr_ruri_update),
      (''hep_node'', cr_hep_node_update), (''hep_cid'', cr_hep_cid_update),
      (''raw_b64'', cr_raw_b64_update)] k"

definition int_field :: "string \<Rightarrow> ((int \<Rightarrow> int) \<Rightarrow> capture_record \<Rightarrow> capture_record) option" where
  "int_field k = map_of
     [(''ts_ms'', cr_ts_ms_update), (''status'', cr_status_update),
      (''hep_node_id'', cr_hep_node_id_update), (''size'', cr_size_update)] k"

definition set_field :: "string \<times> jval \<Rightarrow> capture_record \<Rightarrow> capture_record option" where
  "set_field m r =
     (case (string_field (fst m), int_field (fst m)) of
        (Some f, _) \<Rightarrow> (case snd m of JStr s \<Rightarrow> Some (f (\<lambda>_. s) r) | JNum _ \<Rightarrow> None)
      | (None, Some g) \<Rightarrow> (case snd m of JNum n \<Rightarrow> Some (g (\<lambda>_. n) r) | JStr _ \<Rightarrow> None)
      | (None, None) \<Rightarrow> Some r)"

fun set_fields :: "(string \<times> jval) list \<Rightarrow> capture_record \<Rightarrow> capture_record option" where
  "set_fields [] r = Some r"
| "set_fields (m # ms) r = (case set_field m r of None \<Rightarrow> None | Some r' \<Rightarrow> set_fields ms r')"

definition unmarshal_record :: "string \<Rightarrow> capture_record option" where
  "unmarshal_record s =
     (case parse_object s of None \<Rightarrow> None | Some ms \<Rightarrow> set_fields ms zero_record)"

lemma set_field_simps:
  "set_field (''ts_ms'', JNum n) r = Some (r\<lparr>cr_ts_ms := n\<rparr>)"
  "set_field (''src'', JStr s) r = Some (r\<lparr>cr_src := s\<rparr>)"
  "set_field (''dst'', JStr s) r = Some (r\<lparr>cr_dst := s\<rparr>)"
  "set_field (''transport'', JStr s) r = Some (r\<lparr>cr_transport := s\<rparr>)"
  "set_field (''proto'', JStr s) r = Some (r\<lparr>cr_proto := s\<rparr>)"
  "set_field (''agent'', JStr s) r = Some (r\<lparr>cr_agent := s\<rparr>)"
  "set_field (''kind'', JStr s) r = Some (r\<lparr>cr_kind := s\<rparr>)"
  "set_field (''method'', JStr s) r = Some (r\<lparr>cr_method := s\<rparr>)"
  "set_field (''status'', JNum n) r = Some (r\<lparr>cr_status := n\<rparr>)"
  "set_field (''ruri'', JStr s) r = Some (r\<lparr>cr_ruri := s\<rparr>)"
  "set_field (''call_id'', JStr s) r = Some (r\<lparr>cr_call_id := s\<rparr>)"
  "set_field (''from'', JStr s) r = Some (r\<lparr>cr_from := s\<rparr>)"
  "set_field (''to'', JStr s) r = Some (r\<lparr>cr_to := s\<rparr>)"
  "set_field (''cseq'', JStr s) r = Some (r\<lparr>cr_cseq := s\<rparr>)"
  "set_field (''hep_node_id'', JNum n) r = Some (r\<lparr>cr_hep_node_id := n\<rparr>)"
  "set_field (''hep_node'', JStr s) r = Some (r\<lparr>cr_hep_node := s\<rparr>)"
  "set_field (''hep_cid'', JStr s) r = Some (r\<lparr>cr_hep_cid := s\<rparr>)"
  "set_field (''size'', JNum n) r = Some (r\<lparr>cr_size := n\<rparr>)"
  "set_field (''raw_b64'', JStr s) r = Some (r\<lparr>cr_raw_b64 := s\<rparr>)"
  by (simp_all add: set_field_def string_field_def int_field_def)

text \<open>The record a message is stored as.\<close>

definition stored_record :: "unicode \<Rightarrow> capture_args \<Rightarrow> capture_record" where
  "stored_record u a =
     (let info = parse_sip u (ca_msg a) in
      \<lparr>cr_ts_ms = ca_ts_ms a, cr_src = sanitize (ca_src a), cr_dst = sanitize (ca_dst a),
       cr_transport = sanitize (ca_transport a), cr_proto = sanitize (ca_proto a),
       cr_agent = sanitize (ca_agent a), cr_kind = si_kind info,
       cr_method = sanitize (record_method info), cr_status = si_status info,
       cr_call_id = sanitize (si_call_id info), cr_from = sanitize (si_from info),
       cr_to = sanitize (si_to info), cr_cseq = sanitize (si_cseq info),
       cr_ruri = sanitize (si_ruri info), cr_hep_node_id = ca_node_id a,
       cr_hep_node = sanitize (ca_node_name a), cr_hep_cid = sanitize (ca_correlation a),
       cr_size = int (length (ca_msg a)), cr_raw_b64 = b64_encode (redact_sip u (ca_msg a))\<rparr>)"

definition args_in_range :: "capture_args \<Rightarrow> bool" where
  "args_in_range a \<longleftrightarrow> - (2 ^ 63) \<le> ca_ts_ms a \<and> ca_ts_ms a < 2 ^ 63
     \<and> 0 \<le> ca_node_id a \<and> ca_node_id a < 2 ^ 63 \<and> length (ca_msg a) < 2 ^ 63"

lemma sanitize_Nil [simp]: "sanitize [] = []"
  by (simp add: sanitize_def)

lemma atoi_range: "atoi s = Some i \<Longrightarrow> - (2 ^ 63) \<le> i \<and> i < 2 ^ 63"
  by (auto simp: atoi_def parse_int64_def Let_def
      split: list.splits if_splits sum.splits num_error.splits)

lemma scan_int_range: "scan_int s = Some i \<Longrightarrow> - (2 ^ 63) \<le> i \<and> i < 2 ^ 63"
  by (auto simp: scan_int_def Let_def dest: atoi_range split: if_splits)

lemma parse_headers_status [simp]: "si_status (parse_headers u ls i) = si_status i"
proof (induction ls arbitrary: i)
  case (Cons l ls)
  have "si_status (apply_header u n v i) = si_status i" for n v
    by (simp add: apply_header_def method_from_cseq_def Let_def)
  with Cons show ?case by (auto simp: Let_def split: option.splits)
qed simp

lemma parse_sip_status_range:
  "- (2 ^ 63) \<le> si_status (parse_sip u msg) \<and> si_status (parse_sip u msg) < 2 ^ 63"
  by (auto simp: parse_sip_def parse_first_line_def empty_sip_info_def Let_def
      dest: scan_int_range split: option.splits)

lemma clean_opt_member: "map clean_member (opt_member c k v) = opt_member c (sanitize k) (clean_val v)"
  by (simp add: opt_member_def clean_member_def)

lemma set_fields_opt:
  assumes "set_field (k, v) r \<noteq> None" "c \<or> the (set_field (k, v) r) = r"
  shows "set_fields (opt_member c k v @ ms) r = set_fields ms (the (set_field (k, v) r))"
  using assms by (auto simp: opt_member_def)

lemma unmarshal_make_record:
  assumes "args_in_range a"
  shows "unmarshal_record (make_record u a) = Some (stored_record u a)"
proof -
  have range: "list_all (int64_val \<circ> snd) (record_members u a)"
    using assms parse_sip_status_range [of u "ca_msg a"]
    by (auto simp: record_members_def opt_member_def args_in_range_def Let_def)
  have "record_members u a \<noteq> []" by (simp add: record_members_def Let_def)
  then have parsed: "parse_object (make_record u a) = Some (map clean_member (record_members u a))"
    using range by (simp add: make_record_members parse_print_object)
  have node: "0 < ca_node_id a \<or> ca_node_id a = 0"
    using assms by (auto simp: args_in_range_def)
  have "set_fields (map clean_member (record_members u a)) zero_record = Some (stored_record u a)"
    by (simp add: node record_members_def stored_record_def Let_def clean_opt_member clean_member_def
        sanitize_literals sanitize_plain [OF kind_plain] sanitize_plain [OF b64_encode_alphabet]
        set_field_simps
        zero_record_def set_fields_opt)
  then show ?thesis using parsed by (simp add: unmarshal_record_def)
qed

subsection \<open>Properties\<close>

text \<open>C12: whatever bytes a message holds, the JSON text written for it is read back by the database
  writer field by field: nothing in a message can break out of its string, be lost or move to
  another field (bytes that are not UTF-8 become the replacement character).\<close>

theorem record_survives_storage:
  "args_in_range a \<Longrightarrow> unmarshal_record (make_record u a) = Some (stored_record u a)"
  by (rule unmarshal_make_record)

definition options_args :: capture_args where
  "options_args = \<lparr>ca_src = ''192.0.2.1:5060'', ca_dst = ''0.0.0.0:5060'', ca_transport = ''UDP'',
     ca_msg = options_request, ca_agent = [dq, bsl, nl], ca_proto = ''sip'', ca_ts_ms = 1700000000000,
     ca_node_id = 7, ca_node_name = [], ca_correlation = ''x''\<rparr>"

theorem record_survives_storage_witness:
  "args_in_range options_args
   \<and> unmarshal_record (make_record ascii_tables options_args) = Some (stored_record ascii_tables options_args)
   \<and> cr_agent (stored_record ascii_tables options_args) = [dq, bsl, nl]"
proof -
  have range: "args_in_range options_args"
    by (simp add: args_in_range_def options_args_def options_request_def render_msg_def header_line_def crlf_def)
  have "sanitize [dq, bsl, nl] = [dq, bsl, nl]" by code_simp
  then have "cr_agent (stored_record ascii_tables options_args) = [dq, bsl, nl]"
    by (simp add: stored_record_def options_args_def Let_def)
  with range record_survives_storage [OF range, of ascii_tables] show ?thesis by simp
qed

end
