(* ===== verification/Hep.thy ===== *)
theory Hep
  imports Capture
begin

text \<open>
  HEP version 3 packets (\<^verbatim>\<open>core-go/hep.go\<close>): decoding of the chunk list, the text forms of
  addresses, the shared-secret check and the peer allow list. A packet is \<^verbatim>\<open>HEP3\<close>, a
  16-bit total length and chunks of vendor, type, length (header included) and data.
\<close>

record hep_info =
  hi_ok :: bool
  hi_version :: u8
  hi_ip_proto :: u8
  hi_src_ip :: string
  hi_dst_ip :: string
  hi_src_port :: u16
  hi_dst_port :: u16
  hi_tsec :: u32
  hi_tusec :: u32
  hi_proto_type :: u8
  hi_node_id :: u32
  hi_node_pw :: string
  hi_node_name :: string
  hi_correlation :: string
  hi_payload :: bytes

definition empty_hep_info :: hep_info where
  "empty_hep_info = \<lparr>hi_ok = False, hi_version = 0, hi_ip_proto = 0, hi_src_ip = [],
     hi_dst_ip = [], hi_src_port = 0, hi_dst_port = 0, hi_tsec = 0, hi_tusec = 0,
     hi_proto_type = 0, hi_node_id = 0, hi_node_pw = [], hi_node_name = [],
     hi_correlation = [], hi_payload = []\<rparr>"

definition ts_ms :: "hep_info \<Rightarrow> int" where
  "ts_ms h = uint (hi_tsec h) * 1000 + uint (hi_tusec h) div 1000"

definition endpoint :: "string \<Rightarrow> u16 \<Rightarrow> string" where
  "endpoint ip port =
     (if contains ip '':'' then ''['' @ ip @ '']:'' @ show_int (uint port)
      else ip @ '':'' @ show_int (uint port))"

definition hep_src :: "hep_info \<Rightarrow> string" where
  "hep_src h = endpoint (hi_src_ip h) (hi_src_port h)"

definition hep_dst :: "hep_info \<Rightarrow> string" where
  "hep_dst h = endpoint (hi_dst_ip h) (hi_dst_port h)"

definition agent_label :: "hep_info \<Rightarrow> string" where
  "agent_label h =
     (if hi_node_name h \<noteq> [] then hi_node_name h
      else if hi_node_id h > 0 then ''hep-'' @ show_int (uint (hi_node_id h))
      else ''hep-0'')"

definition proto_type_name :: "u8 \<Rightarrow> string" where
  "proto_type_name t =
     (if t = 1 then ''sip'' else if t = 5 then ''rtcp'' else if t = 34 then ''rtpagent''
      else if t = 35 then ''rtcpxr'' else if t = 38 then ''horaclifix'' else if t = 53 then ''dns''
      else if t = 100 then ''log'' else ''unknown'')"

text \<open>\<^verbatim>\<open>%x\<close> of a 16-bit value: no leading zeros.\<close>

fun show_hex :: "nat \<Rightarrow> string" where
  "show_hex n = (if n < 16 then [hex_digit n] else show_hex (n div 16) @ [hex_digit (n mod 16)])"

declare show_hex.simps [simp del]

definition ipv4_string :: "bytes \<Rightarrow> string" where
  "ipv4_string d = join ''.'' (map (\<lambda>i. show_nat (unat (d ! i))) [0, 1, 2, 3])"

definition ipv6_string :: "bytes \<Rightarrow> string" where
  "ipv6_string b = join '':'' (map (\<lambda>i. show_hex (unat (be16 (drop (2 * i) b)))) [0, 1, 2, 3, 4, 5, 6, 7])"

text \<open>The \<^verbatim>\<open>switch\<close> on the chunk type; a chunk too short for its field is skipped.\<close>

definition apply_chunk :: "u16 \<Rightarrow> bytes \<Rightarrow> hep_info \<Rightarrow> hep_info" where
  "apply_chunk t data info =
     (if t = 1 then (if length data \<ge> 1 then info\<lparr>hi_ip_proto := data ! 0\<rparr> else info)
      else if t = 2 then info
      else if t = 3 then (if length data \<ge> 4 then info\<lparr>hi_src_ip := ipv4_string data\<rparr> else info)
      else if t = 4 then (if length data \<ge> 4 then info\<lparr>hi_dst_ip := ipv4_string data\<rparr> else info)
      else if t = 5 then
        (if length data \<ge> 16 then info\<lparr>hi_src_ip := ipv6_string (take 16 data)\<rparr> else info)
      else if t = 6 then
        (if length data \<ge> 16 then info\<lparr>hi_dst_ip := ipv6_string (take 16 data)\<rparr> else info)
      else if t = 7 then (if length data \<ge> 2 then info\<lparr>hi_src_port := be16 data\<rparr> else info)
      else if t = 8 then (if length data \<ge> 2 then info\<lparr>hi_dst_port := be16 data\<rparr> else info)
      else if t = 9 then (if length data \<ge> 4 then info\<lparr>hi_tsec := be32 data\<rparr> else info)
      else if t = 10 then (if length data \<ge> 4 then info\<lparr>hi_tusec := be32 data\<rparr> else info)
      else if t = 11 then (if length data \<ge> 1 then info\<lparr>hi_proto_type := data ! 0\<rparr> else info)
      else if t = 12 then
        (if length data \<ge> 4 then info\<lparr>hi_node_id := be32 data\<rparr>
         else if length data \<ge> 2 then info\<lparr>hi_node_id := ucast (be16 data)\<rparr> else info)
      else if t = 14 then info\<lparr>hi_node_pw := str_of data\<rparr>
      else if t = 15 then info\<lparr>hi_payload := data\<rparr>
      else if t = 17 then info\<lparr>hi_correlation := str_of data\<rparr>
      else if t = 19 then info\<lparr>hi_node_name := trim_right_char (CHR 0x00) (str_of data)\<rparr>
      else info)"

text \<open>The chunk loop: \<open>lim\<close> is \<^verbatim>\<open>totalLen\<close>, never past the end of the packet.\<close>

function hep_chunks :: "bytes \<Rightarrow> nat \<Rightarrow> nat \<Rightarrow> hep_info \<Rightarrow> hep_info" where
  "hep_chunks pkt lim offset info =
     (if offset + 6 \<le> lim then
        (let chunk_type = be16 (drop (offset + 2) pkt);
             chunk_len = unat (be16 (drop (offset + 4) pkt))
         in if chunk_len < 6 \<or> offset + chunk_len > lim then info
            else hep_chunks pkt lim (offset + chunk_len)
                   (apply_chunk chunk_type (take (chunk_len - 6) (drop (offset + 6) pkt)) info))
      else info)"
  by pat_completeness auto
termination
  by (relation "measure (\<lambda>(pkt, lim, offset, info). lim - offset)") auto

declare hep_chunks.simps [simp del]

definition hep_magic :: bytes where
  "hep_magic = [0x48, 0x45, 0x50, 0x33]"

definition hep_finish :: "hep_info \<Rightarrow> hep_info" where
  "hep_finish info = info\<lparr>hi_ok := length (hi_payload info) > 0 \<or> hi_proto_type info > 0,
     hi_version := 3\<rparr>"

definition hep_decode :: "bytes \<Rightarrow> hep_info" where
  "hep_decode pkt =
     (if length pkt < 6 then empty_hep_info
      else if take 4 pkt \<noteq> hep_magic then empty_hep_info
      else
        (let tl0 = unat (be16 (drop 4 pkt));
             lim = (if tl0 > length pkt then length pkt else tl0)
         in hep_finish (hep_chunks pkt lim 6 empty_hep_info)))"

subsection \<open>Authentication and peers\<close>

text \<open>\<^verbatim>\<open>hmac.Equal\<close> compares without leaking where the strings differ; its result is equality.\<close>

definition constant_time_equal :: "string \<Rightarrow> string \<Rightarrow> bool" where
  "constant_time_equal a b \<longleftrightarrow> a = b"

definition hep_password_ok :: "hep_info \<Rightarrow> config \<Rightarrow> bool" where
  "hep_password_ok info cfg =
     (if hep_password cfg = [] then True else constant_time_equal (hi_node_pw info) (hep_password cfg))"

definition peer_host :: "string \<Rightarrow> string" where
  "peer_host peer =
     (let host = (case split_host_port peer of Some (h, _) \<Rightarrow> h | None \<Rightarrow> [])
      in if host = [] then peer else host)"

definition hep_peer_allowed :: "string \<Rightarrow> config \<Rightarrow> bool" where
  "hep_peer_allowed peer cfg =
     (if length (hep_allow cfg) = 0 then True
      else (let host = peer_host peer in
            list_ex (\<lambda>allowed. host = allowed \<or> has_prefix host allowed) (hep_allow cfg)))"

subsection \<open>Decoding inverts encoding\<close>

text \<open>The packet a capture agent sends for a list of chunks: vendor, type and data.\<close>

definition encode_chunk :: "u16 \<times> u16 \<times> bytes \<Rightarrow> bytes" where
  "encode_chunk c = (case c of (vendor, t, data) \<Rightarrow>
     put16 vendor @ put16 t @ put16 (word_of_nat (6 + length data)) @ data)"

definition encode_packet :: "(u16 \<times> u16 \<times> bytes) list \<Rightarrow> bytes" where
  "encode_packet cs = (let body = concat (map encode_chunk cs) in
     hep_magic @ put16 (word_of_nat (6 + length body)) @ body)"

lemma length_encode_chunk [simp]: "length (encode_chunk (v, t, d)) = 6 + length d"
  by (simp add: encode_chunk_def)

lemma hep_chunks_step:
  assumes "length d < 65530" "length pre + 6 + length d \<le> lim"
  shows "hep_chunks (pre @ encode_chunk (v, t, d) @ post) lim (length pre) info
    = hep_chunks (pre @ encode_chunk (v, t, d) @ post) lim (length pre + (6 + length d))
        (apply_chunk t d info)"
proof -
  have len: "unat (word_of_nat (6 + length d) :: u16) = 6 + length d"
    using assms(1) by (intro unat_u16) simp
  have "be16 (drop (length pre + 2) (pre @ encode_chunk (v, t, d) @ post)) = t"
    by (simp add: encode_chunk_def put16_def [of v])
  moreover have "be16 (drop (length pre + 4) (pre @ encode_chunk (v, t, d) @ post))
      = word_of_nat (6 + length d)"
    by (simp add: encode_chunk_def put16_def [of v] put16_def [of t])
  moreover have "take (length d) (drop (length pre + 6) (pre @ encode_chunk (v, t, d) @ post)) = d"
    by (simp add: encode_chunk_def put16_def)
  ultimately show ?thesis
    using assms len by (subst hep_chunks.simps) (simp add: Let_def)
qed

lemma hep_chunks_encoded:
  "lim = length (pre @ concat (map encode_chunk cs)) \<Longrightarrow>
   \<forall>(v, t, d) \<in> set cs. length d < 65530 \<Longrightarrow>
   hep_chunks (pre @ concat (map encode_chunk cs) @ post) lim (length pre) info
   = fold (\<lambda>(v, t, d). apply_chunk t d) cs info"
proof (induction cs arbitrary: pre info)
  case Nil
  then show ?case by (simp add: hep_chunks.simps)
next
  case (Cons c cs)
  obtain v t d where c: "c = (v, t, d)" by (cases c)
  have "length d < 65530" using Cons.prems(2) c by auto
  moreover have "length pre + 6 + length d \<le> lim" using Cons.prems(1) c by simp
  ultimately have "hep_chunks (pre @ encode_chunk c @ concat (map encode_chunk cs) @ post) lim (length pre) info
      = hep_chunks ((pre @ encode_chunk c) @ concat (map encode_chunk cs) @ post) lim
          (length (pre @ encode_chunk c)) (apply_chunk t d info)"
    using c hep_chunks_step [of d pre lim v t "concat (map encode_chunk cs) @ post" info] by simp
  also have "\<dots> = fold (\<lambda>(v, t, d). apply_chunk t d) cs (apply_chunk t d info)"
    using Cons.prems c by (intro Cons.IH) auto
  finally show ?case using c by simp
qed

lemma encode_packet_chunk_bound:
  assumes "length (encode_packet cs) \<le> 65535"
  shows "\<forall>(v, t, d) \<in> set cs. length d < 65530"
proof -
  have "length d \<le> length (concat (map encode_chunk cs))" if "(v, t, d) \<in> set cs" for v t d
  proof -
    have "length (encode_chunk (v, t, d)) \<le> length (concat (map encode_chunk cs))"
      using that by (induction cs) auto
    then show ?thesis by simp
  qed
  then show ?thesis using assms by (fastforce simp: encode_packet_def Let_def hep_magic_def)
qed

lemma hep_decode_encode:
  assumes "length (encode_packet cs) \<le> 65535"
  shows "hep_decode (encode_packet cs @ trailing)
    = hep_finish (fold (\<lambda>(v, t, d). apply_chunk t d) cs empty_hep_info)"
proof -
  let ?body = "concat (map encode_chunk cs)"
  let ?pre = "hep_magic @ put16 (word_of_nat (6 + length ?body))"
  have len: "length (encode_packet cs) = 6 + length ?body"
    by (simp add: encode_packet_def Let_def hep_magic_def)
  have n: "unat (word_of_nat (6 + length ?body) :: u16) = 6 + length ?body"
    using assms len by (intro unat_u16) simp
  have pkt: "encode_packet cs @ trailing = ?pre @ ?body @ trailing"
    by (simp add: encode_packet_def Let_def)
  have "be16 (drop 4 (?pre @ ?body @ trailing)) = word_of_nat (6 + length ?body)"
    by (simp add: hep_magic_def)
  then have "hep_decode (encode_packet cs @ trailing)
      = hep_finish (hep_chunks (?pre @ ?body @ trailing) (6 + length ?body) (length ?pre) empty_hep_info)"
    unfolding pkt hep_decode_def Let_def using n by (simp add: hep_magic_def)
  also have "\<dots> = hep_finish (fold (\<lambda>(v, t, d). apply_chunk t d) cs empty_hep_info)"
    using hep_chunks_encoded [of "6 + length ?body" ?pre cs trailing empty_hep_info]
      encode_packet_chunk_bound [OF assms] by (simp add: hep_magic_def)
  finally show ?thesis .
qed

subsection \<open>Bounds of what is decoded\<close>

lemma apply_chunk_payload:
  "length (hi_payload info) < 65536 \<Longrightarrow> length data < 65536 \<Longrightarrow>
   length (hi_payload (apply_chunk t data info)) < 65536"
  by (simp add: apply_chunk_def)

lemma hep_chunks_payload:
  "length (hi_payload info) < 65536 \<Longrightarrow>
   length (hi_payload (hep_chunks pkt lim offset info)) < 65536"
proof (induction pkt lim offset info rule: hep_chunks.induct)
  case (1 pkt lim offset info)
  let ?len = "unat (be16 (drop (offset + 4) pkt))"
  let ?data = "take (?len - 6) (drop (offset + 6) pkt)"
  have "length ?data < 65536"
    using unsigned_less [where ?'a = nat and w = "be16 (drop (offset + 4) pkt)"] by simp
  then have "length (hi_payload (apply_chunk (be16 (drop (offset + 2) pkt)) ?data info)) < 65536"
    using 1(2) by (intro apply_chunk_payload)
  then show ?case
    using 1 by (subst hep_chunks.simps) (simp add: Let_def)
qed

lemma hep_decode_payload: "length (hi_payload (hep_decode pkt)) < 65536"
  using hep_chunks_payload [of empty_hep_info]
  by (simp add: hep_decode_def hep_finish_def Let_def empty_hep_info_def)

lemma ts_ms_range: "0 \<le> ts_ms h \<and> ts_ms h < 2 ^ 63"
proof -
  have bound: "0 \<le> x * 1000 + y div 1000 \<and> x * 1000 + y div 1000 < 9223372036854775808"
    if "0 \<le> x" "x < 4294967296" "0 \<le> y" "y < 4294967296" for x y :: int
    using that div_mult_mod_eq [of y 1000] pos_mod_sign [of 1000 y] pos_mod_bound [of 1000 y]
    by linarith
  have "0 \<le> uint w \<and> uint w < 4294967296" for w :: u32
    using unsigned_less [where ?'a = int and w = w] by simp
  then show ?thesis
    using bound [of "uint (hi_tsec h)" "uint (hi_tusec h)"] by (simp only: ts_ms_def) simp
qed

subsection \<open>Properties\<close>

text \<open>C20: decoding a packet that a capture agent built from a list of chunks applies the chunks in
  order and ignores what follows the declared length.\<close>

theorem decode_reads_chunks:
  assumes "length (encode_packet cs) \<le> 65535"
  shows "hep_decode (encode_packet cs @ trailing)
    = hep_finish (fold (\<lambda>(v, t, d). apply_chunk t d) cs empty_hep_info)"
  using assms by (rule hep_decode_encode)

definition sip_chunks :: "(u16 \<times> u16 \<times> bytes) list" where
  "sip_chunks = [(0, 11, [1]), (0, 7, [0x13, 0xC4]), (0, 15, [0x41, 0x42])]"

theorem decode_reads_chunks_witness:
  "hi_src_port (hep_decode (encode_packet sip_chunks @ [9, 9])) = 5060
   \<and> hi_payload (hep_decode (encode_packet sip_chunks @ [9, 9])) = [0x41, 0x42]
   \<and> hi_ok (hep_decode (encode_packet sip_chunks @ [9, 9]))"
proof -
  have "length (encode_packet sip_chunks) \<le> 65535"
    by (simp add: encode_packet_def sip_chunks_def Let_def hep_magic_def)
  moreover have "be16 [0x13, 0xC4] = 5060" by code_simp
  ultimately show ?thesis
    using decode_reads_chunks [of sip_chunks "[9, 9]"]
    by (simp add: sip_chunks_def apply_chunk_def hep_finish_def)
qed

text \<open>An entry of the allow list admits every host that begins with it: the entry for one host
  admits others.\<close>

theorem allow_list_is_by_prefix:
  "entry \<in> set (hep_allow cfg) \<Longrightarrow> has_prefix (peer_host peer) entry \<Longrightarrow> hep_peer_allowed peer cfg"
  by (auto simp: hep_peer_allowed_def list_ex_iff Let_def)

theorem allow_list_is_by_prefix_witness:
  "hep_peer_allowed ''10.0.0.12:9060'' ((load_config (\<lambda>_. []) [])\<lparr>hep_allow := [''10.0.0.1'']\<rparr>)"
proof -
  have "has_prefix (peer_host ''10.0.0.12:9060'') ''10.0.0.1''" by code_simp
  then show ?thesis
    using allow_list_is_by_prefix [of "''10.0.0.1''"
        "(load_config (\<lambda>_. []) [])\<lparr>hep_allow := [''10.0.0.1'']\<rparr>" "''10.0.0.12:9060''"]
    by simp
qed

end
