(* ===== verification/Framing.thy ===== *)
theory Framing
  imports Prelude
begin

text \<open>
  Cutting a byte stream into frames. A receiver keeps what it has not used, and looks at
  the front of it: it needs more bytes, or skips one byte to resynchronise, or takes a
  frame of a known length. The locale \<open>framing\<close> states what a receiver promises about
  that decision; its lemmas say that the result does not depend on how the stream was cut
  into reads. \<open>bounded_framing\<close> adds that a receiver asks for more only below a bound.
\<close>

datatype verdict = NeedMore | SkipByte | FrameLen nat

locale framing =
  fixes decide :: "'a list \<Rightarrow> verdict"
    and handle :: "'a list \<Rightarrow> 's \<Rightarrow> 's"
    and drain :: "'a list \<Rightarrow> 's \<Rightarrow> 'a list \<times> 's"
  assumes drain_unfold: "drain b s =
      (case decide b of
         NeedMore \<Rightarrow> (b, s)
       | SkipByte \<Rightarrow> drain (drop 1 b) s
       | FrameLen n \<Rightarrow> drain (drop n b) (handle (take n b) s))"
    and skip_nonempty: "decide b = SkipByte \<Longrightarrow> b \<noteq> []"
    and frame_bounds: "decide b = FrameLen n \<Longrightarrow> 0 < n \<and> n \<le> length b"
    and skip_stable: "decide b = SkipByte \<Longrightarrow> decide (b @ c) = SkipByte"
    and frame_stable: "decide b = FrameLen n \<Longrightarrow> decide (b @ c) = FrameLen n"
begin

lemma drain_induct:
  assumes "\<And>b s. decide b = NeedMore \<Longrightarrow> P b s"
    and "\<And>b s. decide b = SkipByte \<Longrightarrow> P (drop 1 b) s \<Longrightarrow> P b s"
    and "\<And>b s n. decide b = FrameLen n \<Longrightarrow> P (drop n b) (handle (take n b) s) \<Longrightarrow> P b s"
  shows "P b s"
proof (induction "length b" arbitrary: b s rule: less_induct)
  case less
  show ?case
  proof (cases "decide b")
    case NeedMore
    then show ?thesis by (rule assms(1))
  next
    case SkipByte
    then have "length (drop 1 b) < length b" using skip_nonempty by simp
    with SkipByte show ?thesis by (blast intro: assms(2) less)
  next
    case (FrameLen n)
    then have "length (drop n b) < length b" using frame_bounds [OF FrameLen] by auto
    with FrameLen show ?thesis by (blast intro: assms(3) less)
  qed
qed

lemma drain_need: "decide b = NeedMore \<Longrightarrow> drain b s = (b, s)"
  by (subst drain_unfold) simp

lemma drain_skip: "decide b = SkipByte \<Longrightarrow> drain b s = drain (drop 1 b) s"
  by (subst drain_unfold) simp

lemma drain_frame: "decide b = FrameLen n \<Longrightarrow> drain b s = drain (drop n b) (handle (take n b) s)"
  by (subst drain_unfold) simp

lemma rest_needs_more: "decide (fst (drain b s)) = NeedMore"
proof (induction b s rule: drain_induct)
  case (1 b s)
  then show ?case by (simp add: drain_need)
next
  case (2 b s)
  then show ?case by (simp only: drain_skip)
next
  case (3 b s n)
  then show ?case by (simp only: drain_frame)
qed

text \<open>Draining what was left changes nothing.\<close>

lemma drain_rest: "drain (fst (drain b s)) s' = (fst (drain b s), s')"
  by (rule drain_need, rule rest_needs_more)

lemma drain_append: "drain (b @ c) s = (case drain b s of (r, s') \<Rightarrow> drain (r @ c) s')"
proof (induction b s rule: drain_induct)
  case (1 b s)
  then show ?case by (simp add: drain_need)
next
  case (2 b s)
  have "drop 1 (b @ c) = drop 1 b @ c"
    using skip_nonempty [OF 2(1)] by (cases b) simp_all
  then have "drain (b @ c) s = drain (drop 1 b @ c) s"
    using drain_skip [OF skip_stable [OF 2(1), of c], of s] by (simp only:)
  then show ?case using 2(2) drain_skip [OF 2(1), of s] by (simp only:)
next
  case (3 b s n)
  then show ?case
    using frame_bounds [OF 3(1)] frame_stable [OF 3(1), of c]
    by (simp add: drain_frame take_append_le drop_append_le)
qed

text \<open>How the stream was cut into reads does not matter.\<close>

lemma feed_concat:
  "foldl (\<lambda>(r, s) d. drain (r @ d) s) (drain b s) ds = drain (b @ concat ds) s"
proof (induction ds arbitrary: b)
  case (Cons d ds)
  have "foldl (\<lambda>(r, s) d. drain (r @ d) s) (drain b s) (d # ds)
      = foldl (\<lambda>(r, s) d. drain (r @ d) s) (drain (b @ d) s) ds"
    by (simp add: drain_append [of b d] split: prod.splits)
  then show ?case using Cons [of "b @ d"] by simp
qed simp

text \<open>Complete frames are handled one by one, in order, and leave nothing behind.\<close>

lemma drain_frames:
  assumes "\<forall>f \<in> set fs. \<forall>c. decide (f @ c) = FrameLen (length f)"
  shows "drain (concat fs @ t) s = drain t (fold handle fs s)"
  using assms
proof (induction fs arbitrary: s)
  case (Cons f fs)
  then have "decide (f @ concat fs @ t) = FrameLen (length f)" by simp
  then show ?case using Cons by (simp add: drain_frame)
qed simp

text \<open>The state a drain leaves is the state after handling some frames.\<close>

lemma drain_handles: "\<exists>fs. snd (drain b s) = fold handle fs s"
proof (induction b s rule: drain_induct)
  case (1 b s)
  have "snd (drain b s) = fold handle [] s" using 1 by (simp add: drain_need)
  then show ?case by blast
next
  case (2 b s)
  then show ?case by (simp only: drain_skip)
next
  case (3 b s n)
  then obtain fs where "snd (drain b s) = fold handle (take n b # fs) s"
    by (auto simp: drain_frame)
  then show ?case by blast
qed

lemma drain_invariant:
  assumes "\<And>f s. I s \<Longrightarrow> I (handle f s)" "I s"
  shows "I (snd (drain b s))"
proof -
  have "I (fold handle fs s)" for fs
    using assms(2) by (induction fs arbitrary: s) (auto intro: assms(1))
  then show ?thesis using drain_handles [of b s] by auto
qed

end

locale bounded_framing = framing decide handle drain
  for decide :: "'a list \<Rightarrow> verdict"
    and handle :: "'a list \<Rightarrow> 's \<Rightarrow> 's"
    and drain :: "'a list \<Rightarrow> 's \<Rightarrow> 'a list \<times> 's" +
  fixes bound :: nat
  assumes need_bound: "decide b = NeedMore \<Longrightarrow> length b < bound"
begin

lemma rest_bound: "length (fst (drain b s)) < bound"
  by (rule need_bound, rule rest_needs_more)

end

end
