(* ===== verification/Ring.thy ===== *)
theory Ring
  imports Prelude
begin

text \<open>
  The ring of recent capture records (\<^verbatim>\<open>Ring\<close> of \<^verbatim>\<open>core-go/main.go\<close>) and what it promises:
  it shows the newest \<^verbatim>\<open>RingSize\<close> records, newest first. The promise is the locale
  \<open>bounded_log\<close>; the ring provides it, the capture pipeline relies on it. The position
  counter is a natural number: an \<^verbatim>\<open>int\<close> of 64 bits would overflow after 2^63 records.
\<close>

definition ring_size :: nat where
  "ring_size = 512"

lemma ring_size_pos [simp]: "0 < ring_size"
  by (simp add: ring_size_def)

record ring =
  buf :: "string list"
  idx :: nat

definition new_ring :: ring where
  "new_ring = \<lparr>buf = replicate ring_size [], idx = 0\<rparr>"

definition ring_push :: "string \<Rightarrow> ring \<Rightarrow> ring" where
  "ring_push r q = q\<lparr>buf := (buf q)[idx q mod ring_size := r], idx := Suc (idx q)\<rparr>"

text \<open>\<^verbatim>\<open>Recent\<close>. A negative limit makes \<^verbatim>\<open>make([]string, limit)\<close> panic: \<open>None\<close>.\<close>

definition ring_slot :: "ring \<Rightarrow> nat \<Rightarrow> nat" where
  "ring_slot q i = nat ((int (idx q) - 1 - int i + int ring_size * 2) mod int ring_size)"

definition ring_recent :: "ring \<Rightarrow> int \<Rightarrow> string list option" where
  "ring_recent q limit =
     (let n = (if idx q > ring_size then ring_size else idx q);
          lim = (if limit > int n then int n else limit)
      in if lim < 0 then None else Some (map (\<lambda>i. buf q ! ring_slot q i) [0..<nat lim]))"

subsection \<open>The contract of a bounded log\<close>

locale bounded_log =
  fixes cap :: nat
    and empty :: 'r
    and push :: "'a \<Rightarrow> 'r \<Rightarrow> 'r"
    and recent :: "'r \<Rightarrow> int \<Rightarrow> 'a list option"
    and view :: "'r \<Rightarrow> 'a list"
    and invar :: "'r \<Rightarrow> bool"
  assumes cap_pos: "0 < cap"
    and invar_empty: "invar empty"
    and invar_push: "invar r \<Longrightarrow> invar (push x r)"
    and view_empty: "view empty = []"
    and view_push: "invar r \<Longrightarrow> view (push x r) = take cap (x # view r)"
    and view_length: "length (view r) \<le> cap"
    and recent_view: "invar r \<Longrightarrow> 0 \<le> n \<Longrightarrow> recent r n = Some (take (nat n) (view r))"
    and recent_neg: "n < 0 \<Longrightarrow> recent r n = None"
begin

lemma invar_run: "invar r \<Longrightarrow> invar (fold push xs r)"
  by (induction xs arbitrary: r) (auto intro: invar_push)

lemma view_run: "invar r \<Longrightarrow> view (fold push xs r) = take cap (rev xs @ view r)"
proof (induction xs rule: rev_induct)
  case Nil
  then show ?case by (simp add: view_length)
next
  case (snoc x xs)
  then show ?case
    using cap_pos by (cases cap) (auto simp: view_push invar_run min_def not_le)
qed

lemma view_from_empty: "view (fold push xs empty) = newest cap xs"
  by (simp add: view_run invar_empty view_empty newest_def)

lemma recent_from_empty:
  "0 \<le> n \<Longrightarrow> recent (fold push xs empty) n = Some (newest (min (nat n) cap) xs)"
  by (simp add: recent_view invar_run invar_empty view_from_empty newest_def min_def)

lemma pushed_stays_visible:
  assumes "invar r" "length ys < cap"
  shows "x \<in> set (view (fold push ys (push x r)))"
  using assms cap_pos
  by (cases cap) (auto simp: view_run invar_push view_push take_Cons' split: if_splits)

end

subsection \<open>The ring keeps it\<close>

definition ring_inv :: "ring \<Rightarrow> bool" where
  "ring_inv q \<longleftrightarrow> length (buf q) = ring_size"

definition ring_view :: "ring \<Rightarrow> string list" where
  "ring_view q = map (\<lambda>i. buf q ! ((idx q - 1 - i) mod ring_size)) [0..<min (idx q) ring_size]"

lemma ring_slot_eq: "i < idx q \<Longrightarrow> ring_slot q i = (idx q - 1 - i) mod ring_size"
proof -
  assume "i < idx q"
  then have "int (idx q) - 1 - int i + int ring_size * 2 = int (idx q - 1 - i + 2 * ring_size)"
    by (simp add: of_nat_diff)
  then have "ring_slot q i = (idx q - 1 - i + 2 * ring_size) mod ring_size"
    unfolding ring_slot_def by (metis nat_int of_nat_mod)
  then show ?thesis by simp
qed

lemma slot_distinct: "0 < k \<Longrightarrow> k < n \<Longrightarrow> k \<le> j \<Longrightarrow> (j - k) mod n \<noteq> j mod (n::nat)"
  by (metis diff_diff_cancel diff_le_self dvd_imp_le mod_eq_dvd_iff_nat not_le)

lemma ring_view_push:
  assumes "ring_inv q"
  shows "ring_view (ring_push x q) = take ring_size (x # ring_view q)"
proof (rule nth_equalityI)
  fix i
  assume i: "i < length (ring_view (ring_push x q))"
  then have lt: "i < Suc (idx q)" "i < ring_size"
    by (auto simp: ring_view_def ring_push_def)
  show "ring_view (ring_push x q) ! i = take ring_size (x # ring_view q) ! i"
  proof (cases i)
    case 0
    with assms lt show ?thesis
      by (simp add: ring_view_def ring_push_def ring_inv_def del: upt_Suc)
  next
    case (Suc k)
    with lt have k: "k < idx q" "Suc k < ring_size" by auto
    then have "(idx q - Suc k) mod ring_size \<noteq> idx q mod ring_size"
      by (intro slot_distinct) auto
    with k Suc assms show ?thesis
      by (simp add: ring_view_def ring_push_def ring_inv_def)
  qed
qed (auto simp: ring_view_def ring_push_def ring_size_def)

interpretation ring_log: bounded_log ring_size new_ring ring_push ring_recent ring_view ring_inv
proof unfold_locales
  show "0 < ring_size" by simp
  show "ring_inv new_ring" by (simp add: ring_inv_def new_ring_def)
  show "ring_inv (ring_push x r)" if "ring_inv r" for r x
    using that by (simp add: ring_inv_def ring_push_def)
  show "ring_view new_ring = []" by (simp add: ring_view_def new_ring_def)
  show "ring_view (ring_push x r) = take ring_size (x # ring_view r)" if "ring_inv r" for r x
    using that by (rule ring_view_push)
  show "length (ring_view r) \<le> ring_size" for r by (simp add: ring_view_def)
  show "ring_recent r n = Some (take (nat n) (ring_view r))" if "ring_inv r" "0 \<le> n" for r n
    using that
    by (auto simp: ring_recent_def ring_view_def take_map ring_slot_eq min_def Let_def)
  show "ring_recent r n = None" if "n < 0" for r n
    using that by (auto simp: ring_recent_def Let_def)
qed

subsection \<open>Properties\<close>

text \<open>C32: after any sequence of pushes the ring shows the newest records, newest first, at most
  \<open>RingSize\<close> and at most as many as asked for.\<close>

theorem ring_shows_newest:
  "0 \<le> n \<Longrightarrow>
   ring_recent (fold ring_push recs new_ring) n = Some (newest (min (nat n) ring_size) recs)"
  by (rule ring_log.recent_from_empty)

theorem ring_shows_newest_witness:
  "ring_recent (fold ring_push [''a'', ''b'', ''c''] new_ring) 2 = Some [''c'', ''b'']"
  using ring_shows_newest [of 2 "[''a'', ''b'', ''c'']"] by (simp add: newest_def ring_size_def)

end
