(* ===== verification/Metrics.thy ===== *)
theory Metrics
  imports Prelude
begin

text \<open>
  The counters of \<^verbatim>\<open>core-go/main.go\<close> (\<^verbatim>\<open>Metrics\<close>): 64-bit integers that wrap, and one
  counter per SIP method. Every access is under \<^verbatim>\<open>mu\<close>, so \<^verbatim>\<open>Inc\<close> and \<^verbatim>\<open>BumpMethod\<close> are
  atomic and the model applies them one after another.
\<close>

record metrics =
  start_time :: int
  msgs_total :: i64
  requests :: i64
  responses :: i64
  echoes :: i64
  db_ok :: i64
  db_err :: i64
  db_drop :: i64
  hep_total :: i64
  hep_udp :: i64
  hep_tcp :: i64
  hep_tls :: i64
  hep_err :: i64
  hep_auth_fail :: i64
  hep_deny :: i64
  hep_sip :: i64
  hep_rtcp :: i64
  hep_rtp :: i64
  hep_rtcpxr :: i64
  hep_other :: i64
  parse_err :: i64
  probes_ok :: i64
  probes_fail :: i64
  probe_rtt :: i64
  methods :: "string \<Rightarrow> i64 option"
  status_2xx :: i64
  status_4xx5xx :: i64

definition new_metrics :: "int \<Rightarrow> metrics" where
  "new_metrics now = \<lparr>start_time = now, msgs_total = 0, requests = 0, responses = 0, echoes = 0,
     db_ok = 0, db_err = 0, db_drop = 0, hep_total = 0, hep_udp = 0, hep_tcp = 0, hep_tls = 0,
     hep_err = 0, hep_auth_fail = 0, hep_deny = 0, hep_sip = 0, hep_rtcp = 0, hep_rtp = 0,
     hep_rtcpxr = 0, hep_other = 0, parse_err = 0, probes_ok = 0, probes_fail = 0, probe_rtt = 0,
     methods = Map.empty, status_2xx = 0, status_4xx5xx = 0\<rparr>"

text \<open>
  \<^verbatim>\<open>metrics.Inc(&metrics.F, d)\<close>: the pointer to field \<open>F\<close> is the field's update function.
\<close>

definition inc :: "((i64 \<Rightarrow> i64) \<Rightarrow> metrics \<Rightarrow> metrics) \<Rightarrow> i64 \<Rightarrow> metrics \<Rightarrow> metrics" where
  "inc field delta m = field (\<lambda>v. v + delta) m"

definition bump_method :: "string \<Rightarrow> metrics \<Rightarrow> metrics" where
  "bump_method k m = m\<lparr>methods := (methods m)(k \<mapsto>
     (case methods m k of None \<Rightarrow> 0 | Some v \<Rightarrow> v) + 1)\<rparr>"

text \<open>The sum of the per-method counters.\<close>

definition methods_sum :: "metrics \<Rightarrow> i64" where
  "methods_sum m = (\<Sum>k \<in> dom (methods m). the (methods m k))"

lemma methods_sum_bump:
  assumes "finite (dom (methods m))"
  shows "methods_sum (bump_method k m) = methods_sum m + 1"
proof -
  let ?f = "methods m"
  have out: "(\<Sum>x \<in> dom ?f - {k}. the ((?f(k \<mapsto> v)) x)) = (\<Sum>x \<in> dom ?f - {k}. the (?f x))" for v
    by (rule sum.cong) auto
  show ?thesis
  proof (cases "?f k")
    case None
    then have "dom ?f - {k} = dom ?f" by auto
    with None assms out [of 1] show ?thesis
      by (simp add: methods_sum_def bump_method_def sum.insert_remove)
  next
    case (Some v)
    then have "methods_sum m = v + (\<Sum>x \<in> dom ?f - {k}. the (?f x))"
      using assms sum.remove [of "dom ?f" k "\<lambda>x. the (?f x)"] by (simp add: methods_sum_def domI)
    with Some assms out [of "v + 1"] show ?thesis
      by (simp add: methods_sum_def bump_method_def sum.insert_remove add.commute add.left_commute)
  qed
qed

lemma finite_methods_bump [simp]:
  "finite (dom (methods (bump_method k m))) \<longleftrightarrow> finite (dom (methods m))"
  by (simp add: bump_method_def)

end
