(* ===== verification/Ingest.thy ===== *)
theory Ingest
  imports Hep Framing Ring Metrics
begin

text \<open>
  The capture pipeline: the SIP worker (\<^verbatim>\<open>core-go/sip.go\<close>) and the HEP workers over UDP, TCP
  and TLS (\<^verbatim>\<open>core-go/hep.go\<close>) turn packets into records, count them, push them to the ring
  and hand them to the database writer through a channel of bounded capacity. The state they
  share is one record; \<^verbatim>\<open>time.Now().UnixMilli()\<close> reads the next value of \<open>cs_clock\<close>.
\<close>

record core_state =
  cs_metrics :: metrics
  cs_ring :: ring
  cs_queue :: "string list"
  cs_clock :: "nat \<Rightarrow> i64"
  cs_ticks :: nat

definition init_state :: "int \<Rightarrow> (nat \<Rightarrow> i64) \<Rightarrow> core_state" where
  "init_state started clock =
     \<lparr>cs_metrics = new_metrics started, cs_ring = new_ring, cs_queue = [], cs_clock = clock,
      cs_ticks = 0\<rparr>"

definition read_clock :: "core_state \<Rightarrow> int \<times> core_state" where
  "read_clock s = (sint (cs_clock s (cs_ticks s)), s\<lparr>cs_ticks := Suc (cs_ticks s)\<rparr>)"

text \<open>\<^verbatim>\<open>select { case dbCh <- rec: default: DBDrop++ }\<close> on the buffered channel.\<close>

definition db_send :: "string \<Rightarrow> core_state \<Rightarrow> core_state" where
  "db_send r s =
     (if length (cs_queue s) < db_channel_capacity then s\<lparr>cs_queue := cs_queue s @ [r]\<rparr>
      else cs_metrics_update (inc db_drop_update 1) s)"

text \<open>The counters both handlers advance for a parsed message.\<close>

definition count_message :: "sip_info \<Rightarrow> metrics \<Rightarrow> metrics" where
  "count_message info m =
     (let m1 = inc msgs_total_update 1 m;
          m2 = (if si_kind info = ''request'' then inc requests_update 1 m1
                else inc responses_update 1 m1);
          m3 = (if si_status info \<ge> 200 \<and> si_status info < 300 then inc status_2xx_update 1 m2
                else if si_status info \<ge> 400 then inc status_4xx5xx_update 1 m2 else m2)
      in bump_method (si_method info) m3)"

definition store_record :: "string \<Rightarrow> core_state \<Rightarrow> core_state" where
  "store_record r s = db_send r (cs_ring_update (ring_push r) s)"

subsection \<open>SIP over UDP\<close>

text \<open>One round of \<^verbatim>\<open>sipWorker\<close>: the new state and the reply sent to \<open>src\<close>, if any.\<close>

definition sip_datagram ::
  "unicode \<Rightarrow> getenv \<Rightarrow> config \<Rightarrow> string \<Rightarrow> bytes \<Rightarrow> core_state \<Rightarrow> core_state \<times> string option" where
  "sip_datagram u e cfg src data s =
     (let msg = str_of (take 65535 data) in
      if length msg < 20 then (s, None)
      else
        (let dst = sip_host cfg @ '':'' @ show_int (sip_port cfg);
             (ts, s1) = read_clock s;
             info = parse_sip u msg;
             s2 = cs_metrics_update (count_message info) s1;
             r = make_record u \<lparr>ca_src = src, ca_dst = dst, ca_transport = ''UDP'', ca_msg = msg,
                   ca_agent = ''sip-native'', ca_proto = ''sip'', ca_ts_ms = ts, ca_node_id = 0,
                   ca_node_name = [], ca_correlation = []\<rparr>;
             s3 = store_record r s2
         in if si_kind info = ''request'' \<and> echo_allowed u e cfg (si_method info) then
              (let reply = build_echo u msg (sip_host cfg) (sip_port cfg) in
               if reply \<noteq> [] then (cs_metrics_update (inc echoes_update 1) s3, Some reply)
               else (s3, None))
            else (s3, None)))"

subsection \<open>HEP packets\<close>

definition count_transport :: "string \<Rightarrow> metrics \<Rightarrow> metrics" where
  "count_transport transport m =
     (if transport = ''HEP3'' then inc hep_udp_update 1 m
      else if transport = ''HEP3/TCP'' then inc hep_tcp_update 1 m
      else if transport = ''HEP3/TLS'' then inc hep_tls_update 1 m
      else m)"

definition count_proto :: "string \<Rightarrow> metrics \<Rightarrow> metrics" where
  "count_proto proto m =
     (if proto = ''sip'' then inc hep_sip_update 1 m
      else if proto = ''rtcp'' then inc hep_rtcp_update 1 m
      else if proto = ''rtpagent'' then inc hep_rtp_update 1 m
      else if proto = ''rtcpxr'' then inc hep_rtcpxr_update 1 m
      else inc hep_other_update 1 m)"

definition hep_args :: "hep_info \<Rightarrow> string \<Rightarrow> int \<Rightarrow> capture_args" where
  "hep_args info transport ts =
     \<lparr>ca_src = hep_src info, ca_dst = hep_dst info, ca_transport = transport,
      ca_msg = str_of (hi_payload info), ca_agent = agent_label info,
      ca_proto = proto_type_name (hi_proto_type info), ca_ts_ms = ts,
      ca_node_id = uint (hi_node_id info), ca_node_name = hi_node_name info,
      ca_correlation = hi_correlation info\<rparr>"

definition handle_hep_packet ::
  "unicode \<Rightarrow> config \<Rightarrow> string \<Rightarrow> string \<Rightarrow> bytes \<Rightarrow> core_state \<Rightarrow> core_state" where
  "handle_hep_packet u cfg transport peer pkt s =
     (let info = hep_decode pkt in
      if \<not> hi_ok info then cs_metrics_update (inc hep_err_update 1) s
      else
        (let s1 = cs_metrics_update (count_transport transport)
                    (cs_metrics_update (inc hep_total_update 1) s)
         in if \<not> hep_password_ok info cfg then cs_metrics_update (inc hep_auth_fail_update 1) s1
            else if \<not> hep_peer_allowed peer cfg then cs_metrics_update (inc hep_deny_update 1) s1
            else
              (let s2 = cs_metrics_update (count_proto (proto_type_name (hi_proto_type info))) s1;
                   (ts, s3) = (if ts_ms info \<le> 0 then read_clock s2 else (ts_ms info, s2));
                   sip = parse_sip u (str_of (hi_payload info));
                   s4 = cs_metrics_update (count_message sip) s3
               in store_record (make_record u (hep_args info transport ts)) s4)))"

definition hep_udp_datagram ::
  "unicode \<Rightarrow> config \<Rightarrow> string \<Rightarrow> bytes \<Rightarrow> core_state \<Rightarrow> core_state" where
  "hep_udp_datagram u cfg peer data s =
     (let pkt = take 65535 data in
      if length pkt < 10 then s else handle_hep_packet u cfg ''HEP3'' peer pkt s)"

subsection \<open>HEP over a byte stream\<close>

text \<open>
  \<^verbatim>\<open>drainHEPFrames\<close>. The test \<^verbatim>\<open>frameLen > 65535\<close> is kept although a 16-bit length
  cannot meet it.
\<close>

function drain_hep_frames ::
  "unicode \<Rightarrow> config \<Rightarrow> string \<Rightarrow> string \<Rightarrow> bytes \<Rightarrow> core_state \<Rightarrow> bytes \<times> core_state" where
  "drain_hep_frames u cfg transport peer b s =
     (if length b \<ge> 6 then
        (if take 4 b \<noteq> hep_magic then drain_hep_frames u cfg transport peer (drop 1 b) s
         else
           (let frame_len = unat (be16 (drop 4 b)) in
            if frame_len < 6 \<or> frame_len > 65535 then
              drain_hep_frames u cfg transport peer (drop 1 b) s
            else if length b < frame_len then (b, s)
            else drain_hep_frames u cfg transport peer (drop frame_len b)
                   (handle_hep_packet u cfg transport peer (take frame_len b) s)))
      else (b, s))"
  by pat_completeness auto
termination
  by (relation "measure (\<lambda>(u, cfg, transport, peer, b, s). length b)") auto

declare drain_hep_frames.simps [simp del]

text \<open>What \<^verbatim>\<open>conn.Read\<close> returns: the bytes read (at most 16384) and the error with them.\<close>

datatype read_error = NoError | Eof | OtherError

definition tcp_cap :: nat where
  "tcp_cap = 2 * 1024 * 1024"

fun tcp_loop ::
  "unicode \<Rightarrow> config \<Rightarrow> string \<Rightarrow> (bytes \<times> read_error) list \<Rightarrow> bytes \<Rightarrow> core_state \<Rightarrow> core_state" where
  "tcp_loop u cfg peer [] b s = s"
| "tcp_loop u cfg peer ((d, err) # reads) b s =
     (let b1 = b @ d in
      if length d > 0 \<and> length b1 > tcp_cap then s
      else
        (case drain_hep_frames u cfg ''HEP3/TCP'' peer b1 s of
           (b2, s1) \<Rightarrow>
             (case err of
                NoError \<Rightarrow> tcp_loop u cfg peer reads b2 s1
              | Eof \<Rightarrow> snd (drain_hep_frames u cfg ''HEP3/TCP'' peer b2 s1)
              | OtherError \<Rightarrow> s1)))"

definition hep_tcp_session ::
  "unicode \<Rightarrow> config \<Rightarrow> string \<Rightarrow> (bytes \<times> read_error) list \<Rightarrow> core_state \<Rightarrow> core_state" where
  "hep_tcp_session u cfg peer reads s =
     (if \<not> hep_peer_allowed peer cfg then cs_metrics_update (inc hep_deny_update 1) s
      else tcp_loop u cfg peer reads [] s)"

text \<open>
  A TLS session: everything the peer sends before it closes, at most 2 MB, is read first;
  \<open>failed\<close> is an error of \<^verbatim>\<open>io.ReadAll\<close> (the 10-second deadline, a broken connection).
\<close>

definition hep_tls_session ::
  "unicode \<Rightarrow> config \<Rightarrow> string \<Rightarrow> bytes \<Rightarrow> bool \<Rightarrow> core_state \<Rightarrow> core_state" where
  "hep_tls_session u cfg peer sent failed s =
     (if \<not> hep_peer_allowed peer cfg then cs_metrics_update (inc hep_deny_update 1) s
      else
        (let data = take tcp_cap sent in
         if failed \<or> length data = 0 then s
         else snd (drain_hep_frames u cfg ''HEP3/TLS'' peer data s)))"

subsection \<open>Framing does not depend on the reads\<close>

definition hep_decide :: "bytes \<Rightarrow> verdict" where
  "hep_decide b =
     (if length b < 6 then NeedMore
      else if take 4 b \<noteq> hep_magic then SkipByte
      else
        (let n = unat (be16 (drop 4 b)) in
         if n < 6 then SkipByte else if length b < n then NeedMore else FrameLen n))"

lemma unat_u16_less: "unat (w :: u16) < 65536"
  using unsigned_less [where ?'a = nat and w = w] by simp

lemma be16_append: "2 \<le> length b \<Longrightarrow> be16 (b @ c) = be16 b"
  by (cases b; cases "tl b") (auto simp: be16_def nth_append)

lemma drain_hep_unfold:
  "drain_hep_frames u cfg transport peer b s =
     (case hep_decide b of
        NeedMore \<Rightarrow> (b, s)
      | SkipByte \<Rightarrow> drain_hep_frames u cfg transport peer (drop 1 b) s
      | FrameLen n \<Rightarrow> drain_hep_frames u cfg transport peer (drop n b)
                        (handle_hep_packet u cfg transport peer (take n b) s))"
  by (subst drain_hep_frames.simps)
    (use unat_u16_less [of "be16 (drop 4 b)"] in \<open>simp add: hep_decide_def Let_def\<close>)

lemma hep_decide_append:
  "hep_decide b \<noteq> NeedMore \<Longrightarrow> hep_decide (b @ c) = hep_decide b"
  by (auto simp: hep_decide_def Let_def take_append_le drop_append_le be16_append split: if_splits)

interpretation hep_frames: bounded_framing hep_decide "handle_hep_packet u cfg transport peer"
    "drain_hep_frames u cfg transport peer" 65535
  for u cfg transport peer
proof unfold_locales
  show "drain_hep_frames u cfg transport peer b s =
      (case hep_decide b of
        NeedMore \<Rightarrow> (b, s)
      | SkipByte \<Rightarrow> drain_hep_frames u cfg transport peer (drop 1 b) s
      | FrameLen n \<Rightarrow> drain_hep_frames u cfg transport peer (drop n b)
                        (handle_hep_packet u cfg transport peer (take n b) s))" for b s
    by (rule drain_hep_unfold)
  show "b \<noteq> []" if "hep_decide b = SkipByte" for b
    using that by (auto simp: hep_decide_def)
  show "0 < n \<and> n \<le> length b" if "hep_decide b = FrameLen n" for b n
    using that by (auto simp: hep_decide_def Let_def split: if_splits)
  show "hep_decide (b @ c) = SkipByte" if "hep_decide b = SkipByte" for b c
    using that hep_decide_append [of b c] by simp
  show "hep_decide (b @ c) = FrameLen n" if "hep_decide b = FrameLen n" for b c n
    using that hep_decide_append [of b c] by simp
  show "length b < 65535" if "hep_decide b = NeedMore" for b
    using that unat_u16_less [of "be16 (drop 4 b)"]
    by (auto simp: hep_decide_def Let_def split: if_splits)
qed

lemma hep_decide_packet:
  assumes "length (encode_packet cs) \<le> 65535"
  shows "hep_decide (encode_packet cs @ c) = FrameLen (length (encode_packet cs))"
proof -
  let ?body = "concat (map encode_chunk cs)"
  have "unat (word_of_nat (6 + length ?body) :: u16) = 6 + length ?body"
    using assms by (intro unat_u16) (simp add: encode_packet_def Let_def hep_magic_def)
  then show ?thesis
    unfolding hep_decide_def Let_def encode_packet_def by (simp add: hep_magic_def)
qed

lemma drain_packets:
  assumes "\<forall>cs \<in> set ps. length (encode_packet cs) \<le> 65535"
  shows "drain_hep_frames u cfg transport peer (concat (map encode_packet ps)) s
    = ([], fold (handle_hep_packet u cfg transport peer) (map encode_packet ps) s)"
proof -
  have "\<forall>f \<in> set (map encode_packet ps). \<forall>c. hep_decide (f @ c) = FrameLen (length f)"
    using assms hep_decide_packet by auto
  from hep_frames.drain_frames [OF this, of u cfg transport peer "[]" s] show ?thesis
    by (simp add: hep_frames.drain_need hep_decide_def)
qed

subsection \<open>TCP and TLS sessions\<close>

text \<open>What a session holds between reads fits in 64 KB, so the cap of 2 MB is never met.\<close>

lemma tcp_loop_drain:
  assumes "\<forall>d \<in> set ds. length d \<le> 16384"
    and "hep_decide b = NeedMore"
  shows "tcp_loop u cfg peer (map (\<lambda>d. (d, NoError)) ds @ [([], Eof)]) b s
    = snd (foldl (\<lambda>(r, s) d. drain_hep_frames u cfg ''HEP3/TCP'' peer (r @ d) s) (b, s) ds)"
  using assms
proof (induction ds arbitrary: b s)
  case Nil
  then show ?case by (simp add: hep_frames.drain_need)
next
  case (Cons d ds)
  let ?r = "drain_hep_frames u cfg ''HEP3/TCP'' peer (b @ d) s"
  have "length b < 65535" by (rule hep_frames.need_bound, rule Cons.prems(2))
  then have cap: "\<not> length (b @ d) > tcp_cap" using Cons.prems(1) by (simp add: tcp_cap_def)
  have "hep_decide (fst ?r) = NeedMore" by (rule hep_frames.rest_needs_more)
  then have "tcp_loop u cfg peer (map (\<lambda>d. (d, NoError)) ds @ [([], Eof)]) (fst ?r) (snd ?r)
      = snd (foldl (\<lambda>(r, s) d. drain_hep_frames u cfg ''HEP3/TCP'' peer (r @ d) s) (fst ?r, snd ?r) ds)"
    using Cons.prems(1) by (intro Cons.IH) auto
  then show ?case using cap by (cases ?r) simp
qed

lemma tcp_session_stream:
  assumes "hep_peer_allowed peer cfg" "\<forall>d \<in> set ds. length d \<le> 16384"
  shows "hep_tcp_session u cfg peer (map (\<lambda>d. (d, NoError)) ds @ [([], Eof)]) s
    = snd (drain_hep_frames u cfg ''HEP3/TCP'' peer (concat ds) s)"
proof -
  have nil: "drain_hep_frames u cfg ''HEP3/TCP'' peer [] s = ([], s)"
    by (rule hep_frames.drain_need) (simp add: hep_decide_def)
  have "hep_tcp_session u cfg peer (map (\<lambda>d. (d, NoError)) ds @ [([], Eof)]) s
      = snd (foldl (\<lambda>(r, s) d. drain_hep_frames u cfg ''HEP3/TCP'' peer (r @ d) s)
          (drain_hep_frames u cfg ''HEP3/TCP'' peer [] s) ds)"
    using assms by (simp add: hep_tcp_session_def nil tcp_loop_drain hep_decide_def)
  also have "\<dots> = snd (drain_hep_frames u cfg ''HEP3/TCP'' peer ([] @ concat ds) s)"
    by (simp only: hep_frames.feed_concat)
  finally show ?thesis by simp
qed

lemma tls_session_stream:
  assumes "hep_peer_allowed peer cfg" "length sent \<le> tcp_cap"
  shows "hep_tls_session u cfg peer sent False s
    = snd (drain_hep_frames u cfg ''HEP3/TLS'' peer sent s)"
proof -
  have "drain_hep_frames u cfg ''HEP3/TLS'' peer [] s = ([], s)"
    by (rule hep_frames.drain_need) (simp add: hep_decide_def)
  with assms show ?thesis by (auto simp: hep_tls_session_def)
qed

subsection \<open>Properties\<close>

text \<open>C5: over TCP every packet an allowed peer sends is handled exactly once and in order, however
  the stream is cut into reads, and the session ends with nothing pending.\<close>

theorem tcp_handles_each_packet_once:
  assumes "hep_peer_allowed peer cfg"
    and "\<forall>cs \<in> set ps. length (encode_packet cs) \<le> 65535"
    and "concat ds = concat (map encode_packet ps)" "\<forall>d \<in> set ds. length d \<le> 16384"
  shows "hep_tcp_session u cfg peer (map (\<lambda>d. (d, NoError)) ds @ [([], Eof)]) s
    = fold (handle_hep_packet u cfg ''HEP3/TCP'' peer) (map encode_packet ps) s"
  using assms by (simp add: tcp_session_stream drain_packets)

theorem tcp_handles_each_packet_once_witness:
  "hep_tcp_session ascii_tables (load_config (\<lambda>_. []) []) ''192.0.2.1:4000''
     (map (\<lambda>d. (d, NoError)) [take 7 (encode_packet sip_chunks @ encode_packet sip_chunks),
        drop 7 (encode_packet sip_chunks @ encode_packet sip_chunks)] @ [([], Eof)])
     (init_state 0 (\<lambda>_. 0))
   = fold (handle_hep_packet ascii_tables (load_config (\<lambda>_. []) []) ''HEP3/TCP'' ''192.0.2.1:4000'')
       (map encode_packet [sip_chunks, sip_chunks]) (init_state 0 (\<lambda>_. 0))"
proof (rule tcp_handles_each_packet_once)
  have len: "length (encode_packet sip_chunks) = 29"
    by (simp add: encode_packet_def sip_chunks_def Let_def hep_magic_def)
  show "hep_peer_allowed ''192.0.2.1:4000'' (load_config (\<lambda>_. []) [])"
    by (simp add: hep_peer_allowed_def load_config_def)
  show "\<forall>cs \<in> set [sip_chunks, sip_chunks]. length (encode_packet cs) \<le> 65535" using len by simp
  show "concat [take 7 (encode_packet sip_chunks @ encode_packet sip_chunks),
      drop 7 (encode_packet sip_chunks @ encode_packet sip_chunks)]
    = concat (map encode_packet [sip_chunks, sip_chunks])"
    by (simp del: take_append drop_append)
  show "\<forall>d \<in> set [take 7 (encode_packet sip_chunks @ encode_packet sip_chunks),
      drop 7 (encode_packet sip_chunks @ encode_packet sip_chunks)]. length d \<le> 16384"
    using len by simp
qed

text \<open>C24: what draining leaves is shorter than one frame, and draining again, alone or with more
  bytes, gives what one drain of the whole would: the buffer of a session stays below 64 KB plus
  one read, so the 2 MB cap is never reached.\<close>

theorem drain_is_incremental:
  "length (fst (drain_hep_frames u cfg transport peer b s)) < 65535
   \<and> drain_hep_frames u cfg transport peer (b @ later) s
     = (case drain_hep_frames u cfg transport peer b s of
          (rest, s1) \<Rightarrow> drain_hep_frames u cfg transport peer (rest @ later) s1)
   \<and> drain_hep_frames u cfg transport peer (fst (drain_hep_frames u cfg transport peer b s)) s2
     = (fst (drain_hep_frames u cfg transport peer b s), s2)"
  using hep_frames.rest_bound hep_frames.drain_append hep_frames.drain_rest by blast

text \<open>A TLS session behaves as one drain of everything sent, and a session that fails before
  the peer closes stores nothing of what was read.\<close>

theorem tls_session_all_or_nothing:
  assumes "hep_peer_allowed peer cfg" "length sent \<le> tcp_cap"
  shows "hep_tls_session u cfg peer sent False s = snd (drain_hep_frames u cfg ''HEP3/TLS'' peer sent s)
    \<and> hep_tls_session u cfg peer sent True s = s"
  using assms by (simp add: tls_session_stream) (simp add: hep_tls_session_def)

theorem tls_session_all_or_nothing_witness:
  "hep_tls_session ascii_tables (load_config (\<lambda>_. []) []) ''192.0.2.1:4000'' [1, 2, 3] True
     (init_state 0 (\<lambda>_. 0)) = init_state 0 (\<lambda>_. 0)"
  using tls_session_all_or_nothing [of "''192.0.2.1:4000''" "load_config (\<lambda>_. []) []" "[1, 2, 3]"]
  by (simp add: hep_peer_allowed_def load_config_def tcp_cap_def)

end
