(* ===== verification/Pipeline.thy ===== *)
theory Pipeline
  imports Ingest
begin

text \<open>
  The pipeline as a step relation: packets of every worker in any order, refused
  connections, and the database writer taking from the channel. Counters and ring are
  updated under their mutexes one call at a time; a step here is one packet, whose calls
  commute with those of other packets as far as the invariants below can see (they are
  sums). What every reachable state satisfies: the counters agree with each other, no
  record is lost without being counted, and every record in the channel can be read back.
\<close>

datatype core_event =
    SipIn string bytes
  | HepUdpIn string bytes
  | StreamFrame string string bytes
  | Refused string
  | WriterTakes

inductive core_step ::
  "unicode \<Rightarrow> getenv \<Rightarrow> config \<Rightarrow> core_event \<Rightarrow> core_state \<Rightarrow> core_state \<Rightarrow> bool"
  for u e cfg where
  sip_in: "core_step u e cfg (SipIn src data) s (fst (sip_datagram u e cfg src data s))"
| udp_in: "core_step u e cfg (HepUdpIn peer data) s (hep_udp_datagram u cfg peer data s)"
| stream_frame:
    "hep_peer_allowed peer cfg \<Longrightarrow> transport = ''HEP3/TCP'' \<or> transport = ''HEP3/TLS'' \<Longrightarrow>
     core_step u e cfg (StreamFrame transport peer pkt) s
       (handle_hep_packet u cfg transport peer pkt s)"
| refused:
    "\<not> hep_peer_allowed peer cfg \<Longrightarrow>
     core_step u e cfg (Refused peer) s (cs_metrics_update (inc hep_deny_update 1) s)"
| writer_takes:
    "cs_queue s = r # q \<Longrightarrow> core_step u e cfg WriterTakes s (s\<lparr>cs_queue := q\<rparr>)"

inductive_cases core_stepE: "core_step u e cfg ev s s'"

inductive core_run ::
  "unicode \<Rightarrow> getenv \<Rightarrow> config \<Rightarrow> core_state \<Rightarrow> core_event list \<Rightarrow> core_state \<Rightarrow> bool"
  for u e cfg s where
  start: "core_run u e cfg s [] s"
| step: "core_run u e cfg s tr s1 \<Longrightarrow> core_step u e cfg ev s1 s2 \<Longrightarrow>
         core_run u e cfg s (tr @ [ev]) s2"

definition refusals :: "core_event list \<Rightarrow> nat" where
  "refusals tr = length (filter (\<lambda>ev. case ev of Refused _ \<Rightarrow> True | _ \<Rightarrow> False) tr)"

definition taken :: "core_event list \<Rightarrow> nat" where
  "taken tr = length (filter (\<lambda>ev. ev = WriterTakes) tr)"

subsection \<open>The invariant\<close>

text \<open>Every message is counted once by kind and once by method.\<close>

definition traffic_inv :: "metrics \<Rightarrow> bool" where
  "traffic_inv m \<longleftrightarrow> finite (dom (methods m)) \<and> msgs_total m = requests m + responses m
     \<and> methods_sum m = msgs_total m"

text \<open>Every decoded HEP packet is counted once by transport and once by what became of it.\<close>

definition hep_arrivals :: "metrics \<Rightarrow> i64" where
  "hep_arrivals m = hep_udp m + hep_tcp m + hep_tls m"

definition hep_outcomes :: "metrics \<Rightarrow> i64" where
  "hep_outcomes m = hep_auth_fail m + hep_deny m
     + hep_sip m + hep_rtcp m + hep_rtp m + hep_rtcpxr m + hep_other m"

definition hep_inv :: "nat \<Rightarrow> metrics \<Rightarrow> bool" where
  "hep_inv refused m \<longleftrightarrow> hep_total m = hep_arrivals m
     \<and> hep_outcomes m = hep_total m + word_of_nat refused"

text \<open>Every message reaches the ring, and the channel or the drop counter.\<close>

definition store_inv :: "nat \<Rightarrow> core_state \<Rightarrow> bool" where
  "store_inv tk s \<longleftrightarrow> ring_inv (cs_ring s) \<and> length (cs_queue s) \<le> db_channel_capacity
     \<and> msgs_total (cs_metrics s) = word_of_nat (idx (cs_ring s))
     \<and> msgs_total (cs_metrics s)
       = word_of_nat (length (cs_queue s) + tk) + db_drop (cs_metrics s)"

definition readable :: "unicode \<Rightarrow> string \<Rightarrow> bool" where
  "readable u r \<longleftrightarrow> (\<exists>a. args_in_range a \<and> r = make_record u a)"

definition queue_inv :: "unicode \<Rightarrow> core_state \<Rightarrow> bool" where
  "queue_inv u s \<longleftrightarrow> list_all (readable u) (cs_queue s) \<and> list_all (readable u) (ring_view (cs_ring s))
     \<and> ring_inv (cs_ring s)"

definition core_inv :: "unicode \<Rightarrow> nat \<Rightarrow> nat \<Rightarrow> core_state \<Rightarrow> bool" where
  "core_inv u refused tk s \<longleftrightarrow> traffic_inv (cs_metrics s) \<and> hep_inv refused (cs_metrics s)
     \<and> store_inv tk s \<and> queue_inv u s"

subsection \<open>Counters\<close>

lemma traffic_inv_new: "traffic_inv (new_metrics t)"
  by (simp add: traffic_inv_def new_metrics_def methods_sum_def)

lemma count_message_other [simp]:
  "hep_total (count_message i m) = hep_total m" "hep_udp (count_message i m) = hep_udp m"
  "hep_tcp (count_message i m) = hep_tcp m" "hep_tls (count_message i m) = hep_tls m"
  "hep_auth_fail (count_message i m) = hep_auth_fail m" "hep_deny (count_message i m) = hep_deny m"
  "hep_sip (count_message i m) = hep_sip m" "hep_rtcp (count_message i m) = hep_rtcp m"
  "hep_rtp (count_message i m) = hep_rtp m" "hep_rtcpxr (count_message i m) = hep_rtcpxr m"
  "hep_other (count_message i m) = hep_other m" "db_drop (count_message i m) = db_drop m"
  "echoes (count_message i m) = echoes m"
  "msgs_total (count_message i m) = msgs_total m + 1"
  by (simp_all add: count_message_def bump_method_def inc_def Let_def)

lemma count_message_traffic: "traffic_inv m \<Longrightarrow> traffic_inv (count_message i m)"
  unfolding count_message_def Let_def
  by (simp add: traffic_inv_def methods_sum_bump inc_def)
    (simp add: bump_method_def methods_sum_def)

lemma traffic_inv_inc [simp]:
  "traffic_inv (inc hep_total_update d m) = traffic_inv m"
  "traffic_inv (inc hep_err_update d m) = traffic_inv m"
  "traffic_inv (inc hep_auth_fail_update d m) = traffic_inv m"
  "traffic_inv (inc hep_deny_update d m) = traffic_inv m"
  "traffic_inv (inc db_drop_update d m) = traffic_inv m"
  "traffic_inv (inc echoes_update d m) = traffic_inv m"
  "traffic_inv (count_transport t m) = traffic_inv m"
  "traffic_inv (count_proto p m) = traffic_inv m"
  by (simp_all add: traffic_inv_def methods_sum_def inc_def count_transport_def count_proto_def)

lemma hep_sums_inc [simp]:
  "hep_arrivals (inc hep_err_update d m) = hep_arrivals m"
  "hep_arrivals (inc db_drop_update d m) = hep_arrivals m"
  "hep_arrivals (inc echoes_update d m) = hep_arrivals m"
  "hep_arrivals (inc hep_total_update d m) = hep_arrivals m"
  "hep_arrivals (inc hep_auth_fail_update d m) = hep_arrivals m"
  "hep_arrivals (inc hep_deny_update d m) = hep_arrivals m"
  "hep_arrivals (count_proto p m) = hep_arrivals m"
  "hep_arrivals (count_message i m) = hep_arrivals m"
  "hep_outcomes (inc hep_err_update d m) = hep_outcomes m"
  "hep_outcomes (inc db_drop_update d m) = hep_outcomes m"
  "hep_outcomes (inc echoes_update d m) = hep_outcomes m"
  "hep_outcomes (inc hep_total_update d m) = hep_outcomes m"
  "hep_outcomes (count_transport t m) = hep_outcomes m"
  "hep_outcomes (count_message i m) = hep_outcomes m"
  "hep_outcomes (inc hep_auth_fail_update d m) = hep_outcomes m + d"
  "hep_outcomes (inc hep_deny_update d m) = hep_outcomes m + d"
  "hep_outcomes (count_proto p m) = hep_outcomes m + 1"
  by (simp_all add: hep_arrivals_def hep_outcomes_def count_proto_def count_transport_def)
    (simp_all add: inc_def)

lemma hep_total_inc [simp]:
  "hep_total (inc hep_err_update d m) = hep_total m"
  "hep_total (inc db_drop_update d m) = hep_total m"
  "hep_total (inc echoes_update d m) = hep_total m"
  "hep_total (inc hep_auth_fail_update d m) = hep_total m"
  "hep_total (inc hep_deny_update d m) = hep_total m"
  "hep_total (inc hep_total_update d m) = hep_total m + d"
  "hep_total (count_proto p m) = hep_total m"
  "hep_total (count_transport t m) = hep_total m"
  by (simp_all add: inc_def count_proto_def count_transport_def)

lemma hep_inv_inc [simp]:
  "hep_inv k (inc hep_err_update d m) = hep_inv k m"
  "hep_inv k (inc db_drop_update d m) = hep_inv k m"
  "hep_inv k (inc echoes_update d m) = hep_inv k m"
  "hep_inv k (count_message i m) = hep_inv k m"
  by (simp_all add: hep_inv_def)

definition hep_transport :: "string \<Rightarrow> bool" where
  "hep_transport t \<longleftrightarrow> t = ''HEP3'' \<or> t = ''HEP3/TCP'' \<or> t = ''HEP3/TLS''"

lemma hep_arrivals_transport: "hep_transport t \<Longrightarrow> hep_arrivals (count_transport t m) = hep_arrivals m + 1"
  by (auto simp: hep_transport_def hep_arrivals_def count_transport_def inc_def)

text \<open>The three ways a decoded packet ends, and a connection refused.\<close>

lemma hep_inv_outcomes:
  assumes "hep_inv k m" "hep_transport t"
  shows "hep_inv k (inc hep_auth_fail_update 1 (count_transport t (inc hep_total_update 1 m)))"
    "hep_inv k (inc hep_deny_update 1 (count_transport t (inc hep_total_update 1 m)))"
    "hep_inv k (count_proto p (count_transport t (inc hep_total_update 1 m)))"
  using assms by (simp_all add: hep_inv_def hep_arrivals_transport)

lemma hep_inv_refused: "hep_inv k m \<Longrightarrow> hep_inv (Suc k) (inc hep_deny_update 1 m)"
  by (simp add: hep_inv_def)

subsection \<open>Records\<close>

lemma sint_i64_range: "- (2 ^ 63) \<le> sint (w :: i64) \<and> sint w < 2 ^ 63"
  using sint_greater_eq [of w] sint_less [of w] by simp

lemma hep_args_range:
  assumes "- (2 ^ 63) \<le> ts \<and> ts < 2 ^ 63"
  shows "args_in_range (hep_args (hep_decode pkt) transport ts)"
proof -
  have "0 \<le> uint (hi_node_id (hep_decode pkt))" "uint (hi_node_id (hep_decode pkt)) < 2 ^ 32"
    using unsigned_less [where ?'a = int and w = "hi_node_id (hep_decode pkt)"] by simp_all
  then show ?thesis
    using assms hep_decode_payload [of pkt] by (simp add: args_in_range_def hep_args_def)
qed

lemma store_record_simps [simp]:
  "cs_ring (store_record r s) = ring_push r (cs_ring s)"
  "cs_queue (store_record r s) =
     (if length (cs_queue s) < db_channel_capacity then cs_queue s @ [r] else cs_queue s)"
  "cs_metrics (store_record r s) =
     (if length (cs_queue s) < db_channel_capacity then cs_metrics s
      else inc db_drop_update 1 (cs_metrics s))"
  by (simp_all add: store_record_def db_send_def)

text \<open>What the counters of storage say: \<open>n\<close> messages went to the channel or were dropped.\<close>

definition balance :: "nat \<Rightarrow> core_state \<Rightarrow> i64" where
  "balance tk s = word_of_nat (length (cs_queue s) + tk) + db_drop (cs_metrics s)"

lemma balance_store [simp]: "balance tk (store_record r s) = balance tk s + 1"
  by (simp add: balance_def inc_def)

lemma balance_metrics: "db_drop (f (cs_metrics s)) = db_drop (cs_metrics s) \<Longrightarrow>
   balance tk (cs_metrics_update f s) = balance tk s"
  by (simp add: balance_def)

lemma msgs_total_drop [simp]: "msgs_total (inc db_drop_update d m) = msgs_total m"
  by (simp add: inc_def)

lemma store_inv_balance:
  "store_inv tk s \<longleftrightarrow> ring_inv (cs_ring s) \<and> length (cs_queue s) \<le> db_channel_capacity
     \<and> msgs_total (cs_metrics s) = word_of_nat (idx (cs_ring s))
     \<and> msgs_total (cs_metrics s) = balance tk s"
  by (simp add: store_inv_def balance_def)

lemma store_record_inv:
  assumes "core_inv u k tk s" "readable u r"
  shows "core_inv u k tk (store_record r (cs_metrics_update (count_message i) s))"
proof -
  have "ring_inv (cs_ring s)" using assms(1) by (simp add: core_inv_def queue_inv_def)
  then have ring: "ring_inv (ring_push r (cs_ring s))"
    "ring_view (ring_push r (cs_ring s)) = take ring_size (r # ring_view (cs_ring s))"
    by (rule ring_log.invar_push, rule ring_log.view_push)
  have "list_all (readable u) (take ring_size (r # ring_view (cs_ring s)))"
    using assms in_set_takeD [of _ ring_size] by (fastforce simp: core_inv_def queue_inv_def list_all_iff)
  then have "queue_inv u (store_record r (cs_metrics_update (count_message i) s))"
    using assms ring by (simp add: core_inv_def queue_inv_def)
  moreover have "store_inv tk (store_record r (cs_metrics_update (count_message i) s))"
    using assms(1) ring(1)
    by (auto simp: core_inv_def store_inv_balance balance_metrics ring_push_def)
  ultimately show ?thesis
    using assms count_message_traffic [of "cs_metrics s" i] by (simp add: core_inv_def)
qed

subsection \<open>Every step keeps the invariant\<close>

lemma core_inv_ticks [simp]: "core_inv u k tk (s\<lparr>cs_ticks := n\<rparr>) = core_inv u k tk s"
  by (simp add: core_inv_def store_inv_def queue_inv_def)

lemma core_inv_clock: "read_clock s = (ts, s') \<Longrightarrow> core_inv u k tk s' = core_inv u k tk s"
  by (auto simp: read_clock_def)

lemma core_inv_metrics:
  assumes "core_inv u k tk s" "traffic_inv (f (cs_metrics s))" "hep_inv k' (f (cs_metrics s))"
    and "msgs_total (f (cs_metrics s)) = msgs_total (cs_metrics s)"
    and "db_drop (f (cs_metrics s)) = db_drop (cs_metrics s)"
  shows "core_inv u k' tk (cs_metrics_update f s)"
  using assms by (auto simp: core_inv_def store_inv_def queue_inv_def)

lemma core_inv_parts: "core_inv u k tk s \<Longrightarrow> traffic_inv (cs_metrics s) \<and> hep_inv k (cs_metrics s)"
  by (simp add: core_inv_def)

lemma untouched_counters [simp]:
  "msgs_total (inc hep_err_update d m) = msgs_total m"
  "msgs_total (inc hep_total_update d m) = msgs_total m"
  "msgs_total (inc hep_auth_fail_update d m) = msgs_total m"
  "msgs_total (inc hep_deny_update d m) = msgs_total m"
  "msgs_total (inc echoes_update d m) = msgs_total m"
  "msgs_total (count_transport t m) = msgs_total m"
  "msgs_total (count_proto p m) = msgs_total m"
  "db_drop (inc hep_err_update d m) = db_drop m"
  "db_drop (inc hep_total_update d m) = db_drop m"
  "db_drop (inc hep_auth_fail_update d m) = db_drop m"
  "db_drop (inc hep_deny_update d m) = db_drop m"
  "db_drop (inc echoes_update d m) = db_drop m"
  "db_drop (count_transport t m) = db_drop m"
  "db_drop (count_proto p m) = db_drop m"
  by (simp_all add: inc_def count_transport_def count_proto_def)

lemma core_inv_echo: "core_inv u k tk s \<Longrightarrow> core_inv u k tk (cs_metrics_update (inc echoes_update 1) s)"
  by (rule core_inv_metrics) (simp_all add: core_inv_parts)

lemma sip_datagram_inv:
  assumes "core_inv u k tk s"
  shows "core_inv u k tk (fst (sip_datagram u e cfg src data s))"
proof -
  obtain ts s1 where clk: "read_clock s = (ts, s1)" by (cases "read_clock s")
  then have s1: "core_inv u k tk s1" using assms core_inv_clock by blast
  have ts: "- (2 ^ 63) \<le> ts \<and> ts < 2 ^ 63" using clk sint_i64_range by (auto simp: read_clock_def)
  let ?msg = "str_of (take 65535 data)"
  define a where "a = \<lparr>ca_src = src, ca_dst = sip_host cfg @ '':'' @ show_int (sip_port cfg),
    ca_transport = ''UDP'', ca_msg = ?msg, ca_agent = ''sip-native'', ca_proto = ''sip'',
    ca_ts_ms = ts, ca_node_id = 0, ca_node_name = [], ca_correlation = []\<rparr>"
  have "args_in_range a" using ts by (simp add: a_def args_in_range_def)
  then have "readable u (make_record u a)" by (auto simp: readable_def)
  from store_record_inv [OF s1 this] show ?thesis
    using assms clk by (auto simp: sip_datagram_def Let_def a_def intro: core_inv_echo)
qed

lemma handle_hep_packet_inv:
  assumes inv: "core_inv u k tk s" and tr: "hep_transport transport"
  shows "core_inv u k tk (handle_hep_packet u cfg transport peer pkt s)"
proof -
  let ?info = "hep_decode pkt"
  let ?s1 = "cs_metrics_update (count_transport transport) (cs_metrics_update (inc hep_total_update 1) s)"
  let ?s2 = "cs_metrics_update (count_proto (proto_type_name (hi_proto_type ?info))) ?s1"
  have m: "traffic_inv (cs_metrics s)" "hep_inv k (cs_metrics s)" using inv core_inv_parts by auto
  have err: "core_inv u k tk (cs_metrics_update (inc hep_err_update 1) s)"
    using inv m by (intro core_inv_metrics) simp_all
  have outcome: "core_inv u k tk (cs_metrics_update f ?s1)"
    if "f = inc hep_auth_fail_update 1 \<or> f = inc hep_deny_update 1 \<or> f = count_proto p" for f p
    using that inv m hep_inv_outcomes(1,2) [OF m(2) tr] hep_inv_outcomes(3) [OF m(2) tr, of p]
      core_inv_metrics [OF inv, of "f \<circ> count_transport transport \<circ> inc hep_total_update 1" k]
    by (auto simp: comp_def)
  obtain ts s3 where ts: "(if ts_ms ?info \<le> 0 then read_clock ?s2 else (ts_ms ?info, ?s2)) = (ts, s3)"
    by (metis surj_pair)
  have "core_inv u k tk ?s2" using outcome by blast
  then have s3: "core_inv u k tk s3"
    using ts core_inv_clock [of ?s2 ts s3 u k tk] by (auto split: if_splits)
  have "- (2 ^ 63) \<le> ts \<and> ts < 2 ^ 63"
    using ts ts_ms_range [of ?info] sint_i64_range by (auto simp: read_clock_def split: if_splits)
  then have "readable u (make_record u (hep_args ?info transport ts))"
    using hep_args_range by (auto simp: readable_def)
  note stored = store_record_inv [OF s3 this]
  show ?thesis
    unfolding handle_hep_packet_def Let_def ts prod.case
    using err outcome stored by (simp only: simp_thms split: if_split)
qed

lemma core_step_inv:
  assumes "core_step u e cfg ev s s'" "core_inv u k tk s"
  shows "core_inv u (k + refusals [ev]) (tk + taken [ev]) s'"
  using assms(1)
proof cases
  case (sip_in src data)
  then show ?thesis using sip_datagram_inv [OF assms(2)] by (simp add: refusals_def taken_def)
next
  case (udp_in peer data)
  then show ?thesis
    using assms(2) handle_hep_packet_inv [OF assms(2)]
    by (simp add: hep_udp_datagram_def hep_transport_def refusals_def taken_def Let_def)
next
  case (stream_frame peer transport pkt)
  then show ?thesis
    using handle_hep_packet_inv [OF assms(2), of transport]
    by (simp add: hep_transport_def refusals_def taken_def)
next
  case (refused peer)
  then show ?thesis
    using assms(2) core_inv_parts [OF assms(2)] hep_inv_refused [of k "cs_metrics s"]
    by (auto simp: refusals_def taken_def intro: core_inv_metrics)
next
  case (writer_takes r q)
  then show ?thesis
    using assms(2) by (auto simp: core_inv_def store_inv_def queue_inv_def refusals_def taken_def)
qed

lemma refusals_append [simp]: "refusals (a @ b) = refusals a + refusals b"
  by (simp add: refusals_def)

lemma taken_append [simp]: "taken (a @ b) = taken a + taken b"
  by (simp add: taken_def)

lemma core_inv_init: "core_inv u 0 0 (init_state t clock)"
  using ring_log.invar_empty ring_log.view_empty
  by (simp add: core_inv_def init_state_def traffic_inv_new store_inv_def queue_inv_def)
    (simp add: hep_inv_def hep_arrivals_def hep_outcomes_def new_metrics_def new_ring_def)

lemma core_run_inv:
  "core_run u e cfg (init_state t clock) tr s \<Longrightarrow> core_inv u (refusals tr) (taken tr) s"
proof (induction rule: core_run.induct)
  case start
  then show ?case by (simp add: core_inv_init refusals_def taken_def)
next
  case (step tr s1 ev s2)
  then show ?case using core_step_inv [of u e cfg ev s1 s2 "refusals tr" "taken tr"] by simp
qed

subsection \<open>Sessions are runs\<close>

lemma core_run_trans:
  "core_run u e cfg s1 b s2 \<Longrightarrow> core_run u e cfg s a s1 \<Longrightarrow> core_run u e cfg s (a @ b) s2"
proof (induction rule: core_run.induct)
  case start
  then show ?case by simp
next
  case (step tr s1' ev s2)
  then show ?case using core_run.step [of u e cfg s "a @ tr" s1' ev s2] by simp
qed

lemma run_frames:
  assumes "hep_peer_allowed peer cfg" "transport = ''HEP3/TCP'' \<or> transport = ''HEP3/TLS''"
  shows "core_run u e cfg s (map (StreamFrame transport peer) fs)
    (fold (handle_hep_packet u cfg transport peer) fs s)"
proof (induction fs rule: rev_induct)
  case Nil
  show ?case by (simp add: core_run.start)
next
  case (snoc f fs)
  then show ?case using assms by (simp add: core_run.step core_step.stream_frame)
qed

lemma run_drain:
  assumes "hep_peer_allowed peer cfg" "transport = ''HEP3/TCP'' \<or> transport = ''HEP3/TLS''"
  shows "\<exists>tr. core_run u e cfg s tr (snd (drain_hep_frames u cfg transport peer b s))"
  using run_frames [OF assms, of u e s] hep_frames.drain_handles [of u cfg transport peer b s] by metis

lemma tcp_loop_run:
  assumes "hep_peer_allowed peer cfg"
  shows "\<exists>tr. core_run u e cfg s tr (tcp_loop u cfg peer reads b s)"
proof (induction reads arbitrary: b s)
  case Nil
  show ?case using core_run.start [of u e cfg s] by auto
next
  case (Cons rd reads)
  obtain d err where rd: "rd = (d, err)" by (cases rd)
  let ?r1 = "drain_hep_frames u cfg ''HEP3/TCP'' peer (b @ d) s"
  let ?r2 = "drain_hep_frames u cfg ''HEP3/TCP'' peer (fst ?r1) (snd ?r1)"
  have drained: "\<exists>tr. core_run u e cfg s' tr (snd (drain_hep_frames u cfg ''HEP3/TCP'' peer b' s'))"
    for s' b'
    using assms by (intro run_drain) simp_all
  have "tcp_loop u cfg peer (rd # reads) b s \<in>
      {s, snd ?r1, snd ?r2, tcp_loop u cfg peer reads (fst ?r1) (snd ?r1)}"
    by (cases ?r1; cases err) (simp_all add: rd Let_def)
  moreover have "\<exists>tr. core_run u e cfg s tr s" using core_run.start by blast
  moreover have "\<exists>tr. core_run u e cfg s tr (snd ?r1)" using drained by blast
  moreover have "\<exists>tr. core_run u e cfg s tr (snd ?r2)" using drained core_run_trans by meson
  moreover have "\<exists>tr. core_run u e cfg s tr (tcp_loop u cfg peer reads (fst ?r1) (snd ?r1))"
    using drained Cons core_run_trans by meson
  ultimately show ?case by (metis insertE singletonD)
qed

lemma session_runs:
  "\<exists>tr. core_run u e cfg s tr (hep_tcp_session u cfg peer reads s)"
  "\<exists>tr. core_run u e cfg s tr (hep_tls_session u cfg peer sent failed s)"
proof -
  have refuse: "\<exists>tr. core_run u e cfg s tr (cs_metrics_update (inc hep_deny_update 1) s)"
    if "\<not> hep_peer_allowed peer cfg"
    using core_run.step [OF core_run.start core_step.refused [OF that]] by blast
  have stay: "\<exists>tr. core_run u e cfg s tr s" using core_run.start by blast
  show "\<exists>tr. core_run u e cfg s tr (hep_tcp_session u cfg peer reads s)"
    using refuse tcp_loop_run by (simp add: hep_tcp_session_def)
  show "\<exists>tr. core_run u e cfg s tr (hep_tls_session u cfg peer sent failed s)"
    using refuse stay run_drain [of peer cfg "''HEP3/TLS''"] by (simp add: hep_tls_session_def Let_def)
qed

subsection \<open>What can be read from the channel\<close>

lemma not_credential_empty: "\<not> is_credential_line u []"
  by (simp add: is_credential_line_def to_lower_def has_prefix_def)

lemma redacted_lines: "l \<in> set (split_on nl (redact_sip u msg)) \<Longrightarrow> \<not> is_credential_line u l"
  by (auto simp: split_on_redact not_credential_empty)

lemma readable_record:
  assumes "readable u r"
  shows "\<exists>c text. unmarshal_record r = Some c \<and> b64_decode (cr_raw_b64 c) = Some text
     \<and> list_all (\<lambda>l. \<not> is_credential_line u l) (split_on nl text)"
proof -
  obtain a where a: "args_in_range a" "r = make_record u a" using assms by (auto simp: readable_def)
  then have "unmarshal_record r = Some (stored_record u a)" by (simp add: unmarshal_make_record)
  moreover have "b64_decode (cr_raw_b64 (stored_record u a)) = Some (redact_sip u (ca_msg a))"
    by (simp add: stored_record_def Let_def)
  ultimately show ?thesis using redacted_lines by (auto simp: list_all_iff)
qed

subsection \<open>Properties\<close>

text \<open>C2: in every reachable state the counters agree: each message was counted once by kind and
  once by method, each decoded HEP packet once by transport and once by its outcome (refused
  connections add to the deny counter), and each message was written to the ring and is in the
  channel, was taken by the writer, or is in the drop counter.\<close>

theorem counters_agree:
  assumes "core_run u e cfg (init_state started clock) tr s"
  shows "msgs_total (cs_metrics s) = requests (cs_metrics s) + responses (cs_metrics s)
    \<and> methods_sum (cs_metrics s) = msgs_total (cs_metrics s)
    \<and> hep_total (cs_metrics s) = hep_udp (cs_metrics s) + hep_tcp (cs_metrics s) + hep_tls (cs_metrics s)
    \<and> hep_outcomes (cs_metrics s) = hep_total (cs_metrics s) + word_of_nat (refusals tr)
    \<and> msgs_total (cs_metrics s) = word_of_nat (idx (cs_ring s))
    \<and> msgs_total (cs_metrics s)
      = word_of_nat (length (cs_queue s) + taken tr) + db_drop (cs_metrics s)
    \<and> length (cs_queue s) \<le> 4096"
  using core_run_inv [OF assms]
  unfolding core_inv_def traffic_inv_def hep_inv_def hep_arrivals_def store_inv_def
    db_channel_capacity_def
  by blast

text \<open>A run of two datagrams and one record taken.\<close>

definition sample_state :: core_state where
  "sample_state = (let s1 = fst (sip_datagram ascii_tables (\<lambda>_. []) (load_config (\<lambda>_. []) [])
        ''192.0.2.1:5060'' (bytes_of options_request) (init_state 0 (\<lambda>_. 1700000000000)));
      s2 = hep_udp_datagram ascii_tables (load_config (\<lambda>_. []) []) ''192.0.2.2:9060''
        (encode_packet sip_chunks) s1
    in s2\<lparr>cs_queue := tl (cs_queue s2)\<rparr>)"

definition sample_trace :: "core_event list" where
  "sample_trace = [SipIn ''192.0.2.1:5060'' (bytes_of options_request),
     HepUdpIn ''192.0.2.2:9060'' (encode_packet sip_chunks), WriterTakes]"

lemma sip_datagram_queues:
  "20 \<le> length data \<Longrightarrow> cs_queue s = [] \<Longrightarrow>
   cs_queue (fst (sip_datagram u e cfg src data s)) \<noteq> []"
  by (auto simp: sip_datagram_def Let_def read_clock_def db_channel_capacity_def split: prod.splits)

lemma handle_hep_packet_queues:
  "cs_queue s \<noteq> [] \<Longrightarrow> cs_queue (handle_hep_packet u cfg transport peer pkt s) \<noteq> []"
  by (auto simp: handle_hep_packet_def Let_def read_clock_def split: prod.splits if_splits)

lemma sample_run:
  "core_run ascii_tables (\<lambda>_. []) (load_config (\<lambda>_. []) []) (init_state 0 (\<lambda>_. 1700000000000))
     sample_trace sample_state"
proof -
  let ?cfg = "load_config (\<lambda>_. []) []"
  let ?s0 = "init_state 0 (\<lambda>_. 1700000000000)"
  let ?s1 = "fst (sip_datagram ascii_tables (\<lambda>_. []) ?cfg ''192.0.2.1:5060'' (bytes_of options_request) ?s0)"
  let ?s2 = "hep_udp_datagram ascii_tables ?cfg ''192.0.2.2:9060'' (encode_packet sip_chunks) ?s1"
  have "20 \<le> length (bytes_of options_request)"
    by (simp add: options_request_def render_msg_def header_line_def crlf_def)
  then have "cs_queue ?s1 \<noteq> []"
    by (rule sip_datagram_queues) (simp add: init_state_def)
  then have "cs_queue ?s2 \<noteq> []"
    using handle_hep_packet_queues by (simp add: hep_udp_datagram_def Let_def)
  then obtain r q where q: "cs_queue ?s2 = r # q" by (cases "cs_queue ?s2") auto
  have "core_run ascii_tables (\<lambda>_. []) ?cfg ?s0 ([] @ [SipIn ''192.0.2.1:5060'' (bytes_of options_request)]) ?s1"
    by (rule core_run.step [OF core_run.start core_step.sip_in])
  then have "core_run ascii_tables (\<lambda>_. []) ?cfg ?s0
      ([SipIn ''192.0.2.1:5060'' (bytes_of options_request)]
        @ [HepUdpIn ''192.0.2.2:9060'' (encode_packet sip_chunks)]) ?s2"
    unfolding append_Nil by (rule core_run.step [OF _ core_step.udp_in])
  from core_run.step [OF this core_step.writer_takes [where r = r and q = q]] q
  show ?thesis by (simp add: sample_trace_def sample_state_def Let_def)
qed

theorem counters_agree_witness:
  "msgs_total (cs_metrics sample_state)
     = word_of_nat (length (cs_queue sample_state) + 1) + db_drop (cs_metrics sample_state)
   \<and> msgs_total (cs_metrics sample_state) = word_of_nat (idx (cs_ring sample_state))"
proof -
  have "taken sample_trace = 1" by (simp add: sample_trace_def taken_def)
  then show ?thesis using counters_agree [OF sample_run] by metis
qed

text \<open>C1: every record that waits in the channel, in every reachable state, is JSON the writer can
  read, and the message stored in it holds no line with credentials.\<close>

theorem channel_records_are_clean:
  assumes "core_run u e cfg (init_state started clock) tr s" "r \<in> set (cs_queue s)"
  shows "\<exists>c text. unmarshal_record r = Some c \<and> b64_decode (cr_raw_b64 c) = Some text
    \<and> list_all (\<lambda>l. \<not> is_credential_line u l) (split_on nl text)"
  using core_run_inv [OF assms(1)] assms(2) readable_record
  by (auto simp: core_inv_def queue_inv_def list_all_iff)

theorem channel_records_are_clean_witness:
  "\<exists>r c text. r \<in> set (cs_queue (fst (sip_datagram ascii_tables (\<lambda>_. []) (load_config (\<lambda>_. []) [])
        ''192.0.2.1:5060'' (bytes_of options_request) (init_state 0 (\<lambda>_. 1700000000000)))))
     \<and> unmarshal_record r = Some c \<and> b64_decode (cr_raw_b64 c) = Some text
     \<and> list_all (\<lambda>l. \<not> is_credential_line ascii_tables l) (split_on nl text)"
proof -
  let ?s0 = "init_state 0 (\<lambda>_. 1700000000000)"
  let ?s1 = "fst (sip_datagram ascii_tables (\<lambda>_. []) (load_config (\<lambda>_. []) []) ''192.0.2.1:5060''
    (bytes_of options_request) ?s0)"
  have "20 \<le> length (bytes_of options_request)"
    by (simp add: options_request_def render_msg_def header_line_def crlf_def)
  then have "cs_queue ?s1 \<noteq> []"
    by (rule sip_datagram_queues) (simp add: init_state_def)
  then obtain r where "r \<in> set (cs_queue ?s1)" by (cases "cs_queue ?s1") auto
  moreover have "core_run ascii_tables (\<lambda>_. []) (load_config (\<lambda>_. []) []) ?s0
      ([] @ [SipIn ''192.0.2.1:5060'' (bytes_of options_request)]) ?s1"
    by (rule core_run.step [OF core_run.start core_step.sip_in])
  ultimately show ?thesis using channel_records_are_clean by blast
qed

text \<open>A TCP or TLS session, whatever the peer sends and however the reads end, changes the state
  only by steps of the pipeline, so the invariants above hold after it.\<close>

theorem sessions_are_runs:
  "(\<exists>tr. core_run u e cfg s tr (hep_tcp_session u cfg peer reads s))
   \<and> (\<exists>tr. core_run u e cfg s tr (hep_tls_session u cfg peer sent failed s))"
  using session_runs by blast

end
