(* ===== verification/Calendar.thy ===== *)
theory Calendar
  imports Config
begin

text \<open>
  Days and partitions (\<^verbatim>\<open>core-go/db.go\<close>, \<^verbatim>\<open>dayKey\<close> of \<^verbatim>\<open>core-go/main.go\<close>): the table of
  captures has one partition per UTC day. The facts are that the partitions of successive
  days touch and do not overlap, that a time stamp lies in the partition of its own day,
  and what retention removes. \<^verbatim>\<open>time.Date\<close>, \<^verbatim>\<open>Format\<close> and \<^verbatim>\<open>Parse\<close> are those of Go's library
  for the layout \<^verbatim>\<open>20060102\<close>, in the proleptic Gregorian calendar.
\<close>

record date =
  year :: int
  month :: int
  day :: int

definition leap :: "int \<Rightarrow> bool" where
  "leap y \<longleftrightarrow> y mod 4 = 0 \<and> (y mod 100 \<noteq> 0 \<or> y mod 400 = 0)"

definition days_in_month :: "int \<Rightarrow> int \<Rightarrow> int" where
  "days_in_month y m =
     (if m = 2 then (if leap y then 29 else 28)
      else if m = 4 \<or> m = 6 \<or> m = 9 \<or> m = 11 then 30 else 31)"

definition valid_date :: "date \<Rightarrow> bool" where
  "valid_date d \<longleftrightarrow> 1 \<le> month d \<and> month d \<le> 12 \<and> 1 \<le> day d \<and> day d \<le> days_in_month (year d) (month d)"

text \<open>Days before the first of the month.\<close>

definition days_before :: "int \<Rightarrow> int \<Rightarrow> int" where
  "days_before y m =
     (if m = 1 then 0 else if m = 2 then 31
      else (if leap y then 1 else 0)
        + (if m = 3 then 59 else if m = 4 then 90 else if m = 5 then 120 else if m = 6 then 151
           else if m = 7 then 181 else if m = 8 then 212 else if m = 9 then 243
           else if m = 10 then 273 else if m = 11 then 304 else 334))"

text \<open>Days since 1970-01-01.\<close>

definition unix_day :: "date \<Rightarrow> int" where
  "unix_day d = 365 * (year d - 1) + (year d - 1) div 4 - (year d - 1) div 100 + (year d - 1) div 400
     + days_before (year d) (month d) + (day d - 1) - 719162"

definition day_ms :: int where
  "day_ms = 86400000"

definition next_date :: "date \<Rightarrow> date" where
  "next_date d =
     (if day d < days_in_month (year d) (month d) then d\<lparr>day := day d + 1\<rparr>
      else if month d < 12 then d\<lparr>month := month d + 1, day := 1\<rparr>
      else \<lparr>year = year d + 1, month = 1, day = 1\<rparr>)"

text \<open>\<^verbatim>\<open>now.AddDate(0, 0, i)\<close> for the small \<open>i\<close> in use.\<close>

definition add_days :: "nat \<Rightarrow> date \<Rightarrow> date" where
  "add_days i d = (next_date ^^ i) d"

subsection \<open>Partitions\<close>

fun pad_digits :: "nat \<Rightarrow> nat \<Rightarrow> string" where
  "pad_digits 0 n = []"
| "pad_digits (Suc w) n = pad_digits w (n div 10) @ [char_of (48 + n mod 10)]"

text \<open>\<^verbatim>\<open>Format("20060102")\<close> for the years 0 to 9999.\<close>

definition format_date :: "date \<Rightarrow> string" where
  "format_date d = pad_digits 4 (nat (year d)) @ pad_digits 2 (nat (month d)) @ pad_digits 2 (nat (day d))"

record partition =
  pt_name :: string
  pt_from :: int
  pt_to :: int

text \<open>\<^verbatim>\<open>createDayPartition\<close>: the name and bounds of \<^verbatim>\<open>CREATE TABLE ... PARTITION OF captures\<close>.\<close>

definition day_partition :: "date \<Rightarrow> partition" where
  "day_partition d =
     (let start_ms = unix_day d * day_ms in
      \<lparr>pt_name = ''captures_'' @ format_date d, pt_from = start_ms, pt_to = start_ms + 86400000\<rparr>)"

definition ensure_partitions :: "date \<Rightarrow> partition list" where
  "ensure_partitions now = map (\<lambda>i. day_partition (add_days i now)) [0, 1, 2]"

definition in_partition :: "int \<Rightarrow> partition \<Rightarrow> bool" where
  "in_partition ts p \<longleftrightarrow> pt_from p \<le> ts \<and> ts < pt_to p"

text \<open>\<^verbatim>\<open>dayKey\<close>: Go's division truncates toward zero.\<close>

definition go_div :: "int \<Rightarrow> int \<Rightarrow> int" where
  "go_div a b = (if a < 0 then - ((- a) div b) else a div b)"

definition day_key :: "int \<Rightarrow> string" where
  "day_key ts = show_int (go_div ts day_ms)"

subsection \<open>Retention\<close>

definition date_digits :: "string \<Rightarrow> int" where
  "date_digits s = foldl (\<lambda>n c. n * 10 + int (of_char c) - 48) 0 s"

text \<open>\<^verbatim>\<open>time.Parse("20060102", s)\<close>: four, two and two digits, a date that exists, and no more.\<close>

definition parse_date :: "string \<Rightarrow> date option" where
  "parse_date s =
     (if length s < 8 \<or> \<not> list_all is_digit (take 8 s) then None
      else if length s > 8 then None
      else
        (let d = \<lparr>year = date_digits (take 4 s), month = date_digits (take 2 (drop 4 s)),
                  day = date_digits (take 2 (drop 6 s))\<rparr>
         in if valid_date d then Some d else None))"

text \<open>
  \<^verbatim>\<open>dropOldPartitions\<close>: the tables dropped, among \<open>names\<close>, the tables whose name starts
  with \<^verbatim>\<open>captures\<close> and one more character (\<^verbatim>\<open>LIKE 'captures_%'\<close>). The cutoff is in milliseconds.
\<close>

definition drop_old_partitions :: "int \<Rightarrow> int \<Rightarrow> string list \<Rightarrow> string list" where
  "drop_old_partitions now_ms retention names =
     (if retention \<le> 0 then []
      else
        (let cutoff = now_ms - retention * day_ms in
         filter (\<lambda>name.
             if length name < 18 then False
             else (case parse_date (drop 9 name) of
                     None \<Rightarrow> False
                   | Some d \<Rightarrow> unix_day d * day_ms < cutoff)) names))"

text \<open>
  The cutoff for \<^verbatim>\<open>DELETE FROM call_state\<close>: \<^verbatim>\<open>time.Now().Add(-time.Duration(days)*24*time.Hour)\<close>;
  a duration is a 64-bit count of nanoseconds, so the product wraps.
\<close>

definition retention_duration :: "int \<Rightarrow> i64" where
  "retention_duration days = - word_of_int days * 24 * 3600000000000"

definition call_cutoff_ms :: "int \<Rightarrow> int \<Rightarrow> int" where
  "call_cutoff_ms now_ns days = (now_ns + sint (retention_duration days)) div 1000000"

subsection \<open>Successive days\<close>

lemma div_pred: "0 < n \<Longrightarrow> (y :: int) div n = (y - 1) div n + (if y mod n = 0 then 1 else 0)"
proof -
  assume n: "0 < n"
  define q r where "q = y div n" and "r = y mod n"
  have y: "y = q * n + r" "0 \<le> r" "r < n" using n by (simp_all add: q_def r_def)
  show ?thesis
  proof (cases "r = 0")
    case True
    then have "y - 1 = (n - 1) + (q - 1) * n" using y by (simp add: algebra_simps)
    moreover have "((n - 1) + (q - 1) * n) div n = q - 1"
      using n by (subst div_mult_self1) (simp_all add: div_pos_pos_trivial)
    ultimately have "(y - 1) div n = q - 1" by (simp only:)
    with True show ?thesis by (simp add: q_def r_def)
  next
    case False
    then have "y - 1 = (r - 1) + q * n" using y by simp
    moreover have "((r - 1) + q * n) div n = q"
      using n y False by (subst div_mult_self1) (simp_all add: div_pos_pos_trivial)
    ultimately have "(y - 1) div n = q" by (simp only:)
    with False show ?thesis by (simp add: q_def r_def)
  qed
qed

lemma leap_count:
  assumes "R \<Longrightarrow> Q" "Q \<Longrightarrow> P" "a = a' + (if P then 1 else 0)" "b = b' + (if Q then 1 else 0)"
    and "c = c' + (if R then 1 else 0)"
  shows "a - b + c = a' - b' + c' + (if P \<and> (\<not> Q \<or> R) then 1 else (0 :: int))"
  using assms by (cases P; cases Q; cases R) simp_all

lemma leap_days_step:
  "y div 4 - y div 100 + y div 400
   = (y - 1) div 4 - (y - 1) div 100 + (y - 1) div 400 + (if leap y then 1 else 0)"
  unfolding leap_def
proof (rule leap_count [of "y mod 400 = 0" "y mod 100 = 0"])
  show "y mod 100 = 0" if "y mod 400 = 0" using that mod_mod_cancel [of 100 400 y] by simp
  show "y mod 4 = 0" if "y mod 100 = 0" using that mod_mod_cancel [of 4 100 y] by simp
qed (rule div_pred, simp)+

lemma month_cases:
  assumes "1 \<le> m" "m \<le> (12 :: int)"
  shows "m = 1 \<or> m = 2 \<or> m = 3 \<or> m = 4 \<or> m = 5 \<or> m = 6 \<or> m = 7 \<or> m = 8 \<or> m = 9
    \<or> m = 10 \<or> m = 11 \<or> m = 12"
proof -
  have "m \<in> set [1..12]" using assms by (simp only: set_upto atLeastAtMost_iff simp_thms)
  moreover have "[1..12 :: int] = [1, 2, 3, 4, 5, 6, 7, 8, 9, 10, 11, 12]" by code_simp
  ultimately have "m \<in> set [1, 2, 3, 4, 5, 6, 7, 8, 9, 10, 11, 12]" by (simp only:)
  then show ?thesis by simp
qed

lemma days_before_step:
  assumes "1 \<le> m" "m < 12"
  shows "days_before y (m + 1) = days_before y m + days_in_month y m"
proof -
  have "m \<le> 12" using assms(2) by simp
  from month_cases [OF assms(1) this] show ?thesis
    using assms(2) by (elim disjE) (simp_all add: days_before_def days_in_month_def)
qed

lemma unix_day_next: "valid_date d \<Longrightarrow> unix_day (next_date d) = unix_day d + 1"
proof -
  assume v: "valid_date d"
  show ?thesis
  proof (cases "day d < days_in_month (year d) (month d)")
    case True
    then show ?thesis by (simp add: next_date_def unix_day_def)
  next
    case False
    with v have last: "day d = days_in_month (year d) (month d)" by (simp add: valid_date_def)
    show ?thesis
    proof (cases "month d < 12")
      case True
      with v False last show ?thesis
        using days_before_step [of "month d" "year d"]
        by (simp add: next_date_def unix_day_def valid_date_def)
    next
      case end_of_year: False
      with v have "month d = 12" by (simp add: valid_date_def)
      with False last show ?thesis
        using leap_days_step [of "year d"]
        by (simp add: next_date_def unix_day_def days_before_def days_in_month_def)
    qed
  qed
qed

lemma valid_next_date: "valid_date d \<Longrightarrow> valid_date (next_date d)"
proof -
  assume v: "valid_date d"
  have "1 \<le> days_in_month y m" for y m by (simp add: days_in_month_def)
  then show ?thesis using v by (auto simp: valid_date_def next_date_def)
qed

lemma valid_add_days: "valid_date d \<Longrightarrow> valid_date (add_days i d)"
  by (induction i) (simp_all add: add_days_def valid_next_date)

lemma unix_day_add_days: "valid_date d \<Longrightarrow> unix_day (add_days i d) = unix_day d + int i"
proof (induction i)
  case (Suc i)
  then show ?case
    using valid_add_days [of d i] by (simp add: add_days_def unix_day_next)
qed (simp add: add_days_def)

subsection \<open>A time stamp and its partition\<close>

lemma in_day_partition: "in_partition ts (day_partition d) \<longleftrightarrow> ts div day_ms = unix_day d"
proof -
  have "ts div day_ms = unix_day d \<longleftrightarrow> unix_day d * day_ms \<le> ts \<and> ts < (unix_day d + 1) * day_ms"
    using div_mult_mod_eq [of ts day_ms] pos_mod_sign [of day_ms ts] pos_mod_bound [of day_ms ts]
    by (auto simp: day_ms_def)
  then show ?thesis by (auto simp: in_partition_def day_partition_def Let_def day_ms_def)
qed

lemma day_key_partition:
  "0 \<le> ts \<Longrightarrow> in_partition ts (day_partition d) \<Longrightarrow> day_key ts = show_int (unix_day d)"
  by (simp add: in_day_partition day_key_def go_div_def)

lemma ensured_partitions:
  assumes "valid_date now"
  shows "(\<exists>p \<in> set (ensure_partitions now). in_partition ts p)
    \<longleftrightarrow> unix_day now \<le> ts div day_ms \<and> ts div day_ms < unix_day now + 3"
  using unix_day_add_days [OF assms] by (auto simp: ensure_partitions_def in_day_partition)

subsection \<open>Names\<close>

lemma length_pad_digits [simp]: "length (pad_digits w n) = w"
  by (induction w n rule: pad_digits.induct) simp_all

lemma byte_digit [simp]: "d < 10 \<Longrightarrow> byte (char_of (48 + d)) = 48 + d"
  by simp

lemma pad_digits_are_digits: "list_all is_digit (pad_digits w n)"
proof (induction w n rule: pad_digits.induct)
  case (2 w n)
  have "n mod 10 < 10" by simp
  then have "is_digit (char_of (48 + n mod 10))" by (simp add: is_digit_def)
  then show ?case using 2 by simp
qed simp

lemma date_digits_pad: "date_digits (pad_digits w n) = int (n mod 10 ^ w)"
proof (induction w n rule: pad_digits.induct)
  case (2 w n)
  have "date_digits (pad_digits (Suc w) n) = int (n div 10 mod 10 ^ w) * 10 + int (n mod 10)"
    using 2 by (simp add: date_digits_def)
  also have "\<dots> = int (n mod 10 ^ Suc w)"
    by (simp add: mod_mult2_eq mult.commute)
  finally show ?case .
qed (simp add: date_digits_def)

lemma length_format_date [simp]: "length (format_date d) = 8"
  by (simp add: format_date_def)

lemma parse_format_date:
  assumes "valid_date d" "0 \<le> year d" "year d \<le> 9999"
  shows "parse_date (format_date d) = Some d"
proof -
  have "day d \<le> 31" using assms(1) by (auto simp: valid_date_def days_in_month_def split: if_splits)
  then have "nat (day d) < 100" "nat (month d) < 100" "nat (year d) < 10000"
    "0 \<le> day d" "0 \<le> month d"
    using assms by (auto simp: valid_date_def)
  then show ?thesis
    using assms(1,2)
    by (cases d) (simp add: parse_date_def format_date_def date_digits_pad pad_digits_are_digits Let_def)
qed

text \<open>
  A partition is named with 17 characters, and a longer name is not a date: the loop of
  \<^verbatim>\<open>dropOldPartitions\<close> drops nothing, whatever the tables and however old.
\<close>

lemma partition_name_length: "length (pt_name (day_partition d)) = 17"
  by (simp add: day_partition_def Let_def)

lemma drops_nothing: "drop_old_partitions now retention names = []"
proof -
  have "parse_date (drop 9 name) = None" if "18 \<le> length name" for name
    using that by (simp add: parse_date_def)
  then show ?thesis by (auto simp: drop_old_partitions_def Let_def filter_empty_conv)
qed

subsection \<open>The wrap of the retention period\<close>

lemma retention_duration_exact:
  assumes "0 \<le> days" "days \<le> 106751"
  shows "sint (retention_duration days) = - (days * 86400000000000)"
proof -
  have "retention_duration days = word_of_int (- (days * 86400000000000))"
    by (simp add: retention_duration_def)
  moreover have "sint (word_of_int (- (days * 86400000000000)) :: i64) = - (days * 86400000000000)"
    by (subst sint_sbintrunc') (use assms in \<open>simp add: signed_take_bit_int_eq_self\<close>)
  ultimately show ?thesis by simp
qed

lemma retention_duration_wraps: "sint (retention_duration 200000) = 1166744073709551616"
  by (simp add: retention_duration_def)

lemma call_cutoff_exact:
  assumes "0 \<le> days" "days \<le> 106751"
  shows "call_cutoff_ms (now_ms * 1000000) days = now_ms - days * day_ms"
proof -
  have "now_ms * 1000000 + sint (retention_duration days) = (now_ms - days * day_ms) * 1000000"
    using assms by (simp add: retention_duration_exact day_ms_def algebra_simps)
  then show ?thesis unfolding call_cutoff_ms_def by simp
qed

subsection \<open>Properties\<close>

text \<open>C34: the partitions of successive days touch, a time stamp lies in the partition of exactly its
  own UTC day, and the day of the rollup is the day of the partition.\<close>

theorem partitions_tile_time:
  assumes "valid_date d"
  shows "pt_to (day_partition d) = pt_from (day_partition (next_date d))
    \<and> (in_partition ts (day_partition d) \<longleftrightarrow> ts div day_ms = unix_day d)
    \<and> (in_partition ts (day_partition d) \<and> 0 \<le> ts \<longrightarrow> day_key ts = show_int (unix_day d))
    \<and> ((\<exists>p \<in> set (ensure_partitions d). in_partition ts p)
        \<longleftrightarrow> unix_day d \<le> ts div day_ms \<and> ts div day_ms < unix_day d + 3)"
  using in_day_partition [of ts d] day_key_partition [of ts d] ensured_partitions [OF assms, of ts]
    unix_day_next [OF assms]
  by (simp add: day_partition_def Let_def day_ms_def)

theorem partitions_tile_time_witness:
  "pt_from (day_partition \<lparr>year = 2024, month = 3, day = 1\<rparr>)
     = pt_to (day_partition \<lparr>year = 2024, month = 2, day = 29\<rparr>)
   \<and> unix_day \<lparr>year = 2024, month = 2, day = 29\<rparr> = 19782"
proof -
  have "valid_date \<lparr>year = 2024, month = 2, day = 29\<rparr>"
    by (simp add: valid_date_def days_in_month_def leap_def)
  moreover have "next_date \<lparr>year = 2024, month = 2, day = 29\<rparr> = \<lparr>year = 2024, month = 3, day = 1\<rparr>"
    by (simp add: next_date_def days_in_month_def leap_def)
  ultimately show ?thesis
    using partitions_tile_time [of "\<lparr>year = 2024, month = 2, day = 29\<rparr>"]
    by (simp add: unix_day_def days_before_def)
qed

text \<open>C35: retention drops no partition, whatever the tables, the age and the retention period: the
  name of a partition has 17 characters, which the loop skips, and a longer name is not a date. The
  name itself would parse back to the day.\<close>

theorem retention_drops_no_partition:
  "drop_old_partitions now retention names = []
   \<and> length (pt_name (day_partition d)) = 17
   \<and> (valid_date d \<and> 0 \<le> year d \<and> year d \<le> 9999 \<longrightarrow>
        parse_date (drop 9 (pt_name (day_partition d))) = Some d)"
  by (simp add: drops_nothing partition_name_length parse_format_date day_partition_def Let_def)

theorem retention_drops_no_partition_witness:
  "drop_old_partitions 1700000000000 14 [pt_name (day_partition \<lparr>year = 2001, month = 1, day = 1\<rparr>)] = []
   \<and> parse_date (drop 9 (pt_name (day_partition \<lparr>year = 2001, month = 1, day = 1\<rparr>)))
     = Some \<lparr>year = 2001, month = 1, day = 1\<rparr>"
  using retention_drops_no_partition [of 1700000000000 14 "[pt_name (day_partition \<lparr>year = 2001, month = 1, day = 1\<rparr>)]"
      "\<lparr>year = 2001, month = 1, day = 1\<rparr>"]
  by (simp add: valid_date_def days_in_month_def)

text \<open>The cutoff for old calls is exact up to 106751 days of retention; beyond, the 64-bit
  duration wraps, and 200000 days put the cutoff 36 years into the future.\<close>

theorem call_cutoff_bounds:
  "(0 \<le> days \<and> days \<le> 106751 \<longrightarrow> call_cutoff_ms (now_ms * 1000000) days = now_ms - days * day_ms)
   \<and> call_cutoff_ms (now_ms * 1000000) 200000 > now_ms + 36 * 365 * day_ms"
proof -
  have "1166744073709551616 = (1166744073709 :: int) * 1000000 + 551616" by simp
  then have "call_cutoff_ms (now_ms * 1000000) 200000
      = ((now_ms + 1166744073709) * 1000000 + 551616) div 1000000"
    by (simp add: call_cutoff_ms_def retention_duration_wraps algebra_simps)
  also have "\<dots> = now_ms + 1166744073709" by (simp add: div_add1_eq)
  finally show ?thesis using call_cutoff_exact by (simp add: day_ms_def)
qed

theorem call_cutoff_bounds_witness: "call_cutoff_ms (1700000000000 * 1000000) 14 = 1698790400000"
  using call_cutoff_bounds [of 14 1700000000000] by (simp add: day_ms_def)

end
