(* ===== verification/Store.thy ===== *)
theory Store
  imports Capture Calendar "HOL-Library.Multiset"
begin

text \<open>
  The database side of \<^verbatim>\<open>dbBatchInsert\<close> (\<^verbatim>\<open>core-go/db.go\<close>): the rows of \<^verbatim>\<open>captures\<close>, the
  per-call summary \<^verbatim>\<open>call_state\<close> and the rollup \<^verbatim>\<open>report_daily\<close>, with the SQL statements of
  the source read as updates of maps. What the database itself decides is a parameter:
  which rows it accepts, whether \<^verbatim>\<open>Begin\<close>, \<^verbatim>\<open>Prepare\<close> and \<^verbatim>\<open>Commit\<close> succeed, and whether a
  failed statement aborts the rest of the transaction, as PostgreSQL documents.
\<close>

record call_row =
  first_ts :: int
  answer_ts :: int
  last_ts :: int
  last_id :: int
  invite_id :: int
  last_method :: string
  last_status :: int
  answered :: bool
  is_open :: bool
  row_src :: string
  row_dst :: string
  row_from :: string
  row_to :: string
  row_json :: string

type_synonym call_key = "string \<times> string"
type_synonym day_key3 = "string \<times> string \<times> string"

record database =
  db_captures :: "(int \<times> capture_record \<times> string) list"
  db_next_id :: int
  db_calls :: "call_key \<Rightarrow> call_row option"
  db_daily :: "day_key3 \<Rightarrow> int option"
  db_partitions :: "partition list"

record db_behaviour =
  begin_ok :: bool
  prepare_ok :: bool
  accepts :: "capture_record \<Rightarrow> bool"
  abort_on_error :: bool
  commit_ok :: bool

subsection \<open>The statements\<close>

definition insert_capture :: "capture_record \<Rightarrow> string \<Rightarrow> database \<Rightarrow> int \<times> database" where
  "insert_capture r raw d =
     (db_next_id d, d\<lparr>db_captures := db_captures d @ [(db_next_id d, r, raw)],
                      db_next_id := db_next_id d + 1\<rparr>)"

text \<open>How a record counts for its call: what the flags \<^verbatim>\<open>$7\<close>, \<^verbatim>\<open>$8\<close> and \<^verbatim>\<open>$9\<close> are set from.\<close>

definition base_method :: "capture_record \<Rightarrow> string" where
  "base_method r =
     (let parts = split_n 2 space (cr_method r) in
      if length parts = 2 then parts ! 1 else cr_method r)"

definition is_invite_req :: "capture_record \<Rightarrow> bool" where
  "is_invite_req r \<longleftrightarrow> base_method r = ''INVITE'' \<and> cr_kind r = ''request''"

definition is_closed :: "capture_record \<Rightarrow> bool" where
  "is_closed r \<longleftrightarrow> base_method r = ''BYE'' \<or> base_method r = ''CANCEL''"

definition is_answered :: "capture_record \<Rightarrow> bool" where
  "is_answered r \<longleftrightarrow> (base_method r = ''INVITE'' \<and> cr_kind r = ''response'')
     \<and> (cr_status r \<ge> 200 \<and> cr_status r < 300)"

text \<open>The two halves of \<^verbatim>\<open>INSERT INTO call_state ... ON CONFLICT (call_id, agent) DO UPDATE\<close>.\<close>

definition new_call :: "int \<Rightarrow> capture_record \<Rightarrow> call_row" where
  "new_call i r =
     \<lparr>first_ts = cr_ts_ms r, answer_ts = (if is_answered r then cr_ts_ms r else 0),
      last_ts = cr_ts_ms r, last_id = i, invite_id = (if is_invite_req r then i else 0),
      last_method = cr_method r, last_status = cr_status r, answered = is_answered r,
      is_open = (if is_closed r then False else True), row_src = cr_src r, row_dst = cr_dst r,
      row_from = cr_from r, row_to = cr_to r, row_json = cr_method r @ '' record''\<rparr>"

definition update_call :: "int \<Rightarrow> capture_record \<Rightarrow> call_row \<Rightarrow> call_row" where
  "update_call i r c = c
     \<lparr>last_ts := max (last_ts c) (cr_ts_ms r),
      last_id := i,
      last_method := cr_method r,
      last_status := cr_status r,
      is_open := (if is_closed r then False else is_open c),
      answered := (if is_answered r then True else answered c),
      invite_id := (if is_invite_req r \<and> invite_id c = 0 then i else invite_id c),
      answer_ts := (if is_answered r \<and> answer_ts c = 0 then cr_ts_ms r else answer_ts c),
      row_json := cr_method r @ '' record''\<rparr>"

definition upsert_call :: "int \<Rightarrow> capture_record \<Rightarrow> (call_key \<Rightarrow> call_row option) \<Rightarrow> call_key \<Rightarrow> call_row option" where
  "upsert_call i r calls =
     (let k = (cr_call_id r, cr_agent r) in
      calls(k \<mapsto> (case calls k of None \<Rightarrow> new_call i r | Some c \<Rightarrow> update_call i r c)))"

definition upsert_daily :: "day_key3 \<Rightarrow> int \<Rightarrow> (day_key3 \<Rightarrow> int option) \<Rightarrow> day_key3 \<Rightarrow> int option" where
  "upsert_daily k n daily = daily(k \<mapsto> (case daily k of None \<Rightarrow> n | Some old \<Rightarrow> old + n))"

subsection \<open>The batch\<close>

text \<open>A transaction in progress, and whether a statement of it failed and aborted it.\<close>

record tx =
  tx_db :: database
  tx_aborted :: bool
  tx_counts :: "(string \<times> int) list"

fun bump_count :: "string \<Rightarrow> (string \<times> int) list \<Rightarrow> (string \<times> int) list" where
  "bump_count k [] = [(k, 1)]"
| "bump_count k ((k', n) # cs) = (if k = k' then (k', n + 1) # cs else (k', n) # bump_count k cs)"

definition daily_key :: "capture_record \<Rightarrow> string" where
  "daily_key r = day_key (cr_ts_ms r) @ ''|'' @ cr_method r @ ''|'' @ cr_transport r"

text \<open>One round of the loop over \<^verbatim>\<open>recs\<close>; \<open>raw\<close> is \<^verbatim>\<open>rawJSONs[i]\<close>.\<close>

definition insert_one :: "db_behaviour \<Rightarrow> capture_record \<Rightarrow> string \<Rightarrow> tx \<Rightarrow> tx" where
  "insert_one b r raw t =
     (if tx_aborted t \<or> \<not> accepts b r then t\<lparr>tx_aborted := tx_aborted t \<or> abort_on_error b\<rparr>
      else
        (let (i, d1) = insert_capture r raw (tx_db t);
             d2 = (if cr_call_id r \<noteq> [] then d1\<lparr>db_calls := upsert_call i r (db_calls d1)\<rparr> else d1);
             cs = (if cr_method r \<noteq> [] then bump_count (daily_key r) (tx_counts t) else tx_counts t)
         in t\<lparr>tx_db := d2, tx_counts := cs\<rparr>))"

definition raw_at :: "string list \<Rightarrow> nat \<Rightarrow> string" where
  "raw_at raws i = (if i < length raws then raws ! i else [])"

fun insert_loop :: "db_behaviour \<Rightarrow> string list \<Rightarrow> nat \<Rightarrow> capture_record list \<Rightarrow> tx \<Rightarrow> tx" where
  "insert_loop b raws i [] t = t"
| "insert_loop b raws i (r # rs) t = insert_loop b raws (Suc i) rs (insert_one b r (raw_at raws i) t)"

text \<open>One round of the rollup loop; in an aborted transaction the statement fails.\<close>

definition rollup_one :: "string \<times> int \<Rightarrow> tx \<Rightarrow> tx" where
  "rollup_one kc t =
     (let parts = split_n 3 CHR ''|'' (fst kc) in
      if length parts = 3 \<and> \<not> tx_aborted t then
        t\<lparr>tx_db := (tx_db t)\<lparr>db_daily :=
             upsert_daily (parts ! 0, parts ! 1, parts ! 2) (snd kc) (db_daily (tx_db t))\<rparr>\<rparr>
      else t)"

text \<open>\<^verbatim>\<open>dbBatchInsert\<close>: the database afterwards and whether an error is returned.\<close>

definition db_batch_insert ::
  "db_behaviour \<Rightarrow> capture_record list \<Rightarrow> string list \<Rightarrow> database \<Rightarrow> database \<times> bool" where
  "db_batch_insert b recs raws d =
     (if recs = [] then (d, False)
      else if \<not> begin_ok b \<or> \<not> prepare_ok b then (d, True)
      else
        (let t0 = \<lparr>tx_db = d, tx_aborted = False, tx_counts = []\<rparr>;
             t1 = insert_loop b raws 0 recs t0;
             t2 = fold rollup_one (tx_counts t1) t1
         in if tx_aborted t2 \<or> \<not> commit_ok b then (d, True) else (tx_db t2, False)))"

subsection \<open>The call summary\<close>

text \<open>What \<^verbatim>\<open>call_state\<close> says of a call, in terms of its messages in the order they were stored.\<close>

definition first_id :: "(int \<times> capture_record) list \<Rightarrow> int" where
  "first_id ms = (case find (\<lambda>(i, r). is_invite_req r \<and> i \<noteq> 0) ms of Some (i, _) \<Rightarrow> i | None \<Rightarrow> 0)"

definition first_answer :: "(int \<times> capture_record) list \<Rightarrow> int" where
  "first_answer ms =
     (case find (\<lambda>(_, r). is_answered r \<and> cr_ts_ms r \<noteq> 0) ms of Some (_, r) \<Rightarrow> cr_ts_ms r | None \<Rightarrow> 0)"

definition call_summary :: "(int \<times> capture_record) list \<Rightarrow> call_row" where
  "call_summary ms =
     (let first = snd (hd ms); newest_msg = last ms; r = snd newest_msg in
      \<lparr>first_ts = cr_ts_ms first,
       answer_ts = first_answer ms,
       last_ts = Max (set (map (\<lambda>(_, r). cr_ts_ms r) ms)),
       last_id = fst newest_msg,
       invite_id = first_id ms,
       last_method = cr_method r, last_status = cr_status r,
       answered = list_ex (\<lambda>(_, r). is_answered r) ms,
       is_open = (\<not> list_ex (\<lambda>(_, r). is_closed r) ms),
       row_src = cr_src first, row_dst = cr_dst first,
       row_from = cr_from first, row_to = cr_to first,
       row_json = cr_method r @ '' record''\<rparr>)"

definition of_call :: "call_key \<Rightarrow> (int \<times> capture_record) list \<Rightarrow> (int \<times> capture_record) list" where
  "of_call k ms = filter (\<lambda>(_, r). (cr_call_id r, cr_agent r) = k) ms"

lemma call_summary_single: "call_summary [(i, r)] = new_call i r"
  by (simp add: call_summary_def new_call_def first_id_def first_answer_def)

lemma first_id_snoc:
  "first_id (ms @ [(i, r)]) = (if is_invite_req r \<and> first_id ms = 0 then i else first_id ms)"
  by (induction ms) (auto simp: first_id_def)

lemma first_answer_snoc:
  "first_answer (ms @ [(i, r)]) = (if is_answered r \<and> first_answer ms = 0 then cr_ts_ms r else first_answer ms)"
  by (induction ms) (auto simp: first_answer_def)

lemma call_summary_snoc:
  assumes "ms \<noteq> []"
  shows "call_summary (ms @ [(i, r)]) = update_call i r (call_summary ms)"
proof -
  have "Max (set (map (\<lambda>(_, r). cr_ts_ms r) (ms @ [(i, r)])))
      = max (Max (set (map (\<lambda>(_, r). cr_ts_ms r) ms))) (cr_ts_ms r)"
    using assms by (simp add: max.commute)
  then show ?thesis
    using assms
    by (simp add: call_summary_def update_call_def first_id_snoc first_answer_snoc Let_def hd_append
        del: set_map)
qed

definition upsert_all :: "(int \<times> capture_record) list \<Rightarrow> (call_key \<Rightarrow> call_row option) \<Rightarrow> call_key \<Rightarrow> call_row option" where
  "upsert_all ms calls = fold (\<lambda>(i, r). upsert_call i r) ms calls"

lemma upsert_all_summary:
  "upsert_all ms Map.empty k = (if of_call k ms = [] then None else Some (call_summary (of_call k ms)))"
proof (induction ms rule: rev_induct)
  case Nil
  then show ?case by (simp add: upsert_all_def of_call_def)
next
  case (snoc m ms)
  obtain i r where m: "m = (i, r)" by (cases m)
  show ?case
  proof (cases "(cr_call_id r, cr_agent r) = k")
    case True
    then have "of_call k (ms @ [m]) = of_call k ms @ [(i, r)]" by (simp add: of_call_def m)
    moreover have "upsert_all (ms @ [m]) Map.empty k = Some (case upsert_all ms Map.empty k of
        None \<Rightarrow> new_call i r | Some c \<Rightarrow> update_call i r c)"
      using True by (simp add: upsert_all_def m upsert_call_def Let_def)
    ultimately show ?thesis
      using snoc by (simp add: call_summary_single call_summary_snoc split: if_splits)
  next
    case False
    then have "of_call k (ms @ [m]) = of_call k ms" by (simp add: of_call_def m)
    moreover have "upsert_all (ms @ [m]) Map.empty k = upsert_all ms Map.empty k"
      using False by (auto simp: upsert_all_def m upsert_call_def Let_def)
    ultimately show ?thesis using snoc by simp
  qed
qed

subsection \<open>What a batch stores\<close>

fun number :: "int \<Rightarrow> 'a list \<Rightarrow> (int \<times> 'a) list" where
  "number n [] = []"
| "number n (x # xs) = (n, x) # number (n + 1) xs"

definition has_call :: "int \<times> capture_record \<Rightarrow> bool" where
  "has_call m \<longleftrightarrow> cr_call_id (snd m) \<noteq> []"

definition counted :: "capture_record list \<Rightarrow> (string \<times> int) list \<Rightarrow> (string \<times> int) list" where
  "counted rs cs = fold (\<lambda>r cs. if cr_method r \<noteq> [] then bump_count (daily_key r) cs else cs) rs cs"

lemma aborted_stays: "tx_aborted t \<Longrightarrow> tx_aborted (insert_loop b raws i rs t)"
  by (induction rs arbitrary: i t) (simp_all add: insert_one_def)

lemma insert_loop_aborts:
  assumes "abort_on_error b" "\<exists>r \<in> set rs. \<not> accepts b r"
  shows "tx_aborted (insert_loop b raws i rs t)"
  using assms(2)
proof (induction rs arbitrary: i t)
  case (Cons r rs)
  show ?case
  proof (cases "accepts b r")
    case True
    with Cons show ?thesis by simp
  next
    case False
    then have "tx_aborted (insert_one b r (raw_at raws i) t)" using assms(1) by (simp add: insert_one_def)
    then show ?thesis by (simp add: aborted_stays)
  qed
qed simp

lemma insert_loop_stores:
  assumes "\<not> abort_on_error b \<or> list_all (accepts b) rs" "\<not> tx_aborted t"
  shows "let t' = insert_loop b raws i rs t; ms = number (db_next_id (tx_db t)) (filter (accepts b) rs)
    in \<not> tx_aborted t'
     \<and> map (\<lambda>(i, r, _). (i, r)) (db_captures (tx_db t'))
       = map (\<lambda>(i, r, _). (i, r)) (db_captures (tx_db t)) @ ms
     \<and> db_calls (tx_db t') = upsert_all (filter has_call ms) (db_calls (tx_db t))
     \<and> db_daily (tx_db t') = db_daily (tx_db t)
     \<and> tx_counts t' = counted (filter (accepts b) rs) (tx_counts t)"
  using assms
proof (induction rs arbitrary: i t)
  case Nil
  then show ?case by (simp add: upsert_all_def counted_def)
next
  case (Cons r rs)
  let ?t = "insert_one b r (raw_at raws i) t"
  have "\<not> tx_aborted ?t" "\<not> abort_on_error b \<or> list_all (accepts b) rs"
    using Cons.prems by (auto simp: insert_one_def insert_capture_def Let_def)
  note IH = Cons.IH [OF this(2,1), of "Suc i"]
  show ?case
  proof (cases "accepts b r")
    case True
    then show ?thesis
      using IH Cons.prems(2)
      by (simp add: Let_def insert_one_def insert_capture_def has_call_def upsert_all_def counted_def)
  next
    case False
    then have "?t = t" using Cons.prems by (simp add: insert_one_def)
    with False IH show ?thesis by simp
  qed
qed

subsection \<open>The daily rollup\<close>

definition daily_val :: "(day_key3 \<Rightarrow> int option) \<Rightarrow> day_key3 \<Rightarrow> int" where
  "daily_val daily k = (case daily k of None \<Rightarrow> 0 | Some n \<Rightarrow> n)"

text \<open>The row a rollup key is added to, as \<^verbatim>\<open>SplitN\<close> cuts it.\<close>

definition row_of :: "string \<Rightarrow> day_key3 option" where
  "row_of key =
     (let parts = split_n 3 CHR ''|'' key in
      if length parts = 3 then Some (parts ! 0, parts ! 1, parts ! 2) else None)"

definition sum_at :: "day_key3 \<Rightarrow> (string \<times> int) list \<Rightarrow> int" where
  "sum_at k cs = sum_list (map (\<lambda>(key, n). if row_of key = Some k then n else 0) cs)"

lemma rollup_one_row:
  "rollup_one kc t =
     (case row_of (fst kc) of
        Some k \<Rightarrow> if tx_aborted t then t
                  else t\<lparr>tx_db := (tx_db t)\<lparr>db_daily := upsert_daily k (snd kc) (db_daily (tx_db t))\<rparr>\<rparr>
      | None \<Rightarrow> t)"
  by (simp add: rollup_one_def row_of_def Let_def)

lemma daily_val_upsert: "daily_val (upsert_daily k n daily) k' = daily_val daily k' + (if k = k' then n else 0)"
  by (simp add: daily_val_def upsert_daily_def split: option.splits)

lemma rollup_keeps:
  "tx_aborted (fold rollup_one cs t) = tx_aborted t
   \<and> db_captures (tx_db (fold rollup_one cs t)) = db_captures (tx_db t)
   \<and> db_calls (tx_db (fold rollup_one cs t)) = db_calls (tx_db t)"
  by (induction cs arbitrary: t) (simp_all add: rollup_one_row split: option.split)

lemma rollup_val:
  "\<not> tx_aborted t \<Longrightarrow>
   daily_val (db_daily (tx_db (fold rollup_one cs t))) k = daily_val (db_daily (tx_db t)) k + sum_at k cs"
proof (induction cs arbitrary: t)
  case (Cons c cs)
  have "\<not> tx_aborted (rollup_one c t)"
    using Cons.prems by (simp add: rollup_one_row split: option.split)
  then have "daily_val (db_daily (tx_db (fold rollup_one (c # cs) t))) k
      = daily_val (db_daily (tx_db (rollup_one c t))) k + sum_at k cs"
    using Cons.IH by simp
  also have "daily_val (db_daily (tx_db (rollup_one c t))) k
      = daily_val (db_daily (tx_db t)) k + (if row_of (fst c) = Some k then snd c else 0)"
    using Cons.prems by (auto simp: rollup_one_row daily_val_upsert split: option.split)
  finally show ?case by (simp add: sum_at_def split: prod.split)
qed (simp add: sum_at_def)

text \<open>The order in which \<^verbatim>\<open>range\<close> visits the keys does not matter.\<close>

lemma sum_at_mset:
  "sum_at k cs = sum_mset (image_mset (\<lambda>(key, n). if row_of key = Some k then n else 0) (mset cs))"
  by (simp add: sum_at_def sum_mset_sum_list [symmetric])

lemma sum_at_perm: "mset cs = mset cs' \<Longrightarrow> sum_at k cs = sum_at k cs'"
  by (simp add: sum_at_mset)

lemma sum_at_bump: "sum_at k (bump_count key cs) = sum_at k cs + (if row_of key = Some k then 1 else 0)"
  by (induction key cs rule: bump_count.induct) (auto simp: sum_at_def)

definition counts_for :: "day_key3 \<Rightarrow> capture_record \<Rightarrow> bool" where
  "counts_for k r \<longleftrightarrow> cr_method r \<noteq> [] \<and> row_of (daily_key r) = Some k"

lemma sum_at_counted:
  "sum_at k (counted rs cs) = sum_at k cs + int (length (filter (counts_for k) rs))"
proof (induction rs arbitrary: cs)
  case (Cons r rs)
  have "counted (r # rs) cs = counted rs (if cr_method r \<noteq> [] then bump_count (daily_key r) cs else cs)"
    by (simp add: counted_def)
  then show ?case using Cons by (simp add: sum_at_bump counts_for_def)
qed (simp add: counted_def)

lemma day_key_no_bar: "CHR ''|'' \<notin> set (day_key ts)"
  using show_int_num_char [of "go_div ts day_ms"]
  by (auto simp: day_key_def list_all_iff num_char_def is_digit_def)

lemma row_of_daily_key:
  assumes "CHR ''|'' \<notin> set (cr_method r)"
  shows "row_of (daily_key r) = Some (day_key (cr_ts_ms r), cr_method r, cr_transport r)"
  using split_n_append [OF day_key_no_bar, of 1 "cr_ts_ms r" "cr_method r @ CHR ''|'' # cr_transport r"]
    split_n_append [OF assms, of 0 "cr_transport r"]
  by (simp add: row_of_def daily_key_def Let_def numeral_3_eq_3)

subsection \<open>The batch as a whole\<close>

lemma batch_insert_stores:
  assumes "begin_ok b" "prepare_ok b" "commit_ok b" "recs \<noteq> []"
    and "\<not> abort_on_error b \<or> list_all (accepts b) recs"
  shows "\<exists>d'. db_batch_insert b recs raws d = (d', False)
    \<and> map (\<lambda>(i, r, _). (i, r)) (db_captures d')
      = map (\<lambda>(i, r, _). (i, r)) (db_captures d) @ number (db_next_id d) (filter (accepts b) recs)
    \<and> db_calls d' = upsert_all (filter has_call (number (db_next_id d) (filter (accepts b) recs))) (db_calls d)
    \<and> (\<forall>k. daily_val (db_daily d') k
          = daily_val (db_daily d) k + int (length (filter (counts_for k) (filter (accepts b) recs))))"
proof -
  define t0 where "t0 = \<lparr>tx_db = d, tx_aborted = False, tx_counts = []\<rparr>"
  define t1 where "t1 = insert_loop b raws 0 recs t0"
  have loop: "\<not> tx_aborted t1"
    "map (\<lambda>(i, r, _). (i, r)) (db_captures (tx_db t1))
      = map (\<lambda>(i, r, _). (i, r)) (db_captures d) @ number (db_next_id d) (filter (accepts b) recs)"
    "db_calls (tx_db t1)
      = upsert_all (filter has_call (number (db_next_id d) (filter (accepts b) recs))) (db_calls d)"
    "db_daily (tx_db t1) = db_daily d" "tx_counts t1 = counted (filter (accepts b) recs) []"
    using insert_loop_stores [OF assms(5), of t0 raws 0] by (simp_all add: t0_def t1_def Let_def)
  let ?t2 = "fold rollup_one (tx_counts t1) t1"
  have "db_batch_insert b recs raws d = (tx_db ?t2, False)"
    using assms loop(1) rollup_keeps [of "tx_counts t1" t1]
    by (simp add: db_batch_insert_def t0_def t1_def Let_def)
  moreover have "daily_val (db_daily (tx_db ?t2)) k
      = daily_val (db_daily d) k + int (length (filter (counts_for k) (filter (accepts b) recs)))" for k
    using rollup_val [OF loop(1), of "tx_counts t1" k] loop(4,5) sum_at_counted [of k "filter (accepts b) recs" "[]"]
    by (simp add: sum_at_def)
  ultimately show ?thesis
    using loop(2,3) rollup_keeps [of "tx_counts t1" t1] by auto
qed

lemma batch_insert_all_or_nothing:
  "snd (db_batch_insert b recs raws d) \<Longrightarrow> fst (db_batch_insert b recs raws d) = d"
  by (auto simp: db_batch_insert_def Let_def split: if_splits)

lemma batch_insert_rejects:
  assumes "abort_on_error b" "\<exists>r \<in> set recs. \<not> accepts b r"
  shows "db_batch_insert b recs raws d = (d, True)"
  using insert_loop_aborts [OF assms] rollup_keeps assms(2)
  by (auto simp: db_batch_insert_def Let_def)

subsection \<open>Properties\<close>

text \<open>C4: the call table is the summary of each call's messages: whatever is upserted, a key has the
  row that \<open>call_summary\<close> gives for its own messages in order, and other calls do not touch it.\<close>

theorem call_table_summarises:
  "upsert_all ms Map.empty k = (if of_call k ms = [] then None else Some (call_summary (of_call k ms)))"
  by (rule upsert_all_summary)

text \<open>A call is closed only by a \<open>BYE\<close> or \<open>CANCEL\<close>: one that was only ever answered with a
  final error still counts as open.\<close>

theorem rejected_call_stays_open:
  assumes "ms \<noteq> []" "list_all (\<lambda>(i, r). base_method r = ''INVITE'') ms"
  shows "is_open (call_summary ms)"
  using assms by (auto simp: call_summary_def Let_def list_all_iff list_ex_iff is_closed_def)

definition invite_rejected :: "(int \<times> capture_record) list" where
  "invite_rejected =
     [(1, zero_record\<lparr>cr_call_id := ''c'', cr_kind := ''request'', cr_method := ''INVITE'', cr_ts_ms := 5\<rparr>),
      (2, zero_record\<lparr>cr_call_id := ''c'', cr_kind := ''response'', cr_method := ''4 INVITE'',
            cr_status := 486, cr_ts_ms := 9\<rparr>)]"

theorem rejected_call_stays_open_witness:
  "is_open (call_summary invite_rejected) \<and> last_status (call_summary invite_rejected) = 486"
proof -
  have "list_all (\<lambda>(i, r). base_method r = ''INVITE'') invite_rejected" by code_simp
  moreover have "last_status (call_summary invite_rejected) = 486"
    by (simp add: call_summary_def invite_rejected_def Let_def)
  ultimately show ?thesis
    using rejected_call_stays_open [of invite_rejected] by (simp add: invite_rejected_def)
qed

text \<open>C21: a batch that commits appends its accepted records with consecutive ids, updates the call
  table by those that carry a call id, and adds to each row of the rollup the number of its records.\<close>

theorem batch_stores_accepted:
  assumes "begin_ok b" "prepare_ok b" "commit_ok b" "recs \<noteq> []"
    and "\<not> abort_on_error b \<or> list_all (accepts b) recs"
  shows "\<exists>d'. db_batch_insert b recs raws d = (d', False)
    \<and> map (\<lambda>(i, r, _). (i, r)) (db_captures d')
      = map (\<lambda>(i, r, _). (i, r)) (db_captures d) @ number (db_next_id d) (filter (accepts b) recs)
    \<and> db_calls d' = upsert_all (filter has_call (number (db_next_id d) (filter (accepts b) recs))) (db_calls d)
    \<and> (\<forall>k. daily_val (db_daily d') k
          = daily_val (db_daily d) k + int (length (filter (counts_for k) (filter (accepts b) recs))))"
  using assms by (rule batch_insert_stores)

definition empty_db :: database where
  "empty_db = \<lparr>db_captures = [], db_next_id = 1, db_calls = Map.empty, db_daily = Map.empty,
     db_partitions = []\<rparr>"

definition working_db :: db_behaviour where
  "working_db = \<lparr>begin_ok = True, prepare_ok = True, accepts = (\<lambda>r. cr_ts_ms r > 0),
     abort_on_error = True, commit_ok = True\<rparr>"

theorem batch_stores_accepted_witness:
  "\<exists>d'. db_batch_insert working_db (map snd invite_rejected) [] empty_db = (d', False)
    \<and> map (\<lambda>(i, r, _). (i, r)) (db_captures d') = invite_rejected
    \<and> db_calls d' (''c'', []) = Some (call_summary invite_rejected)"
proof -
  have acc: "filter (accepts working_db) (map snd invite_rejected) = map snd invite_rejected"
    by (simp add: working_db_def invite_rejected_def)
  have num: "number 1 (map snd invite_rejected) = invite_rejected"
    by (simp add: invite_rejected_def)
  have call: "filter has_call invite_rejected = invite_rejected"
    "of_call (''c'', []) invite_rejected = invite_rejected" "invite_rejected \<noteq> []"
    by (simp_all add: invite_rejected_def has_call_def of_call_def zero_record_def)
  obtain d' where "db_batch_insert working_db (map snd invite_rejected) [] empty_db = (d', False)"
    "map (\<lambda>(i, r, _). (i, r)) (db_captures d') = invite_rejected"
    "db_calls d' = upsert_all invite_rejected Map.empty"
    using batch_stores_accepted [of working_db "map snd invite_rejected" "[]" empty_db] acc num call
    by (auto simp: working_db_def empty_db_def invite_rejected_def)
  then show ?thesis using upsert_all_summary [of invite_rejected "(''c'', [])"] call by simp
qed



text \<open>The row of the rollup a record counts for is its day, method and transport, unless the
  method holds a bar; then part of the method moves to the transport column.\<close>

theorem rollup_row_of_record:
  "(CHR ''|'' \<notin> set (cr_method r) \<longrightarrow>
      row_of (daily_key r) = Some (day_key (cr_ts_ms r), cr_method r, cr_transport r))
   \<and> (CHR ''|'' \<notin> set a \<longrightarrow>
      row_of (daily_key (r\<lparr>cr_method := a @ ''|'' @ m\<rparr>))
        = Some (day_key (cr_ts_ms r), a, m @ ''|'' @ cr_transport r))"
proof -
  let ?r = "r\<lparr>cr_method := a, cr_transport := m @ ''|'' @ cr_transport r\<rparr>"
  have "daily_key (r\<lparr>cr_method := a @ ''|'' @ m\<rparr>) = daily_key ?r" by (simp add: daily_key_def)
  then show ?thesis using row_of_daily_key [of r] row_of_daily_key [of ?r] by simp
qed

theorem rollup_row_of_record_witness:
  "row_of (daily_key (zero_record\<lparr>cr_method := ''X|Y'', cr_transport := ''UDP''\<rparr>)) = Some (''0'', ''X'', ''Y|UDP'')"
proof -
  have "day_key 0 = ''0''" by code_simp
  then show ?thesis
    using rollup_row_of_record [of "zero_record\<lparr>cr_transport := ''UDP''\<rparr>" "''X''" "''Y''"]
    by (simp add: zero_record_def)
qed

end
