(* ===== verification/Writer.thy ===== *)
theory Writer
  imports Store Metrics
begin

text \<open>
  The database writer (\<^verbatim>\<open>dbWriter\<close> of \<^verbatim>\<open>core-go/db.go\<close>): it collects records from the
  channel in a batch, flushes the batch when it has 100 records, on a timer and when it
  stops, keeps the partitions and applies retention. Each event carries what the database
  does during it. The facts are that a record taken from the channel is counted exactly
  once, as stored or as an error, or still waits in the batch, and that what is stored
  next to a row is the text the row was read from.
\<close>

definition batch_size :: nat where
  "batch_size = 100"

record writer =
  w_batch :: "string list"
  w_db :: database
  w_metrics :: metrics

datatype writer_event =
    Receive string
  | FlushTick
  | PartitionTick date
  | RetentionTick int
  | Stop

subsection \<open>Partitions and retention\<close>

definition overlap :: "partition \<Rightarrow> partition \<Rightarrow> bool" where
  "overlap p q \<longleftrightarrow> pt_from p < pt_to q \<and> pt_from q < pt_to p"

text \<open>\<^verbatim>\<open>CREATE TABLE IF NOT EXISTS\<close>: a name in use or a range in use is an ignored error.\<close>

definition create_partition :: "partition \<Rightarrow> database \<Rightarrow> database" where
  "create_partition p d =
     (if list_ex (\<lambda>q. pt_name q = pt_name p \<or> overlap p q) (db_partitions d) then d
      else d\<lparr>db_partitions := db_partitions d @ [p]\<rparr>)"

text \<open>Dropping a partition drops the rows in it.\<close>

definition drop_partition :: "string \<Rightarrow> database \<Rightarrow> database" where
  "drop_partition name d = d
     \<lparr>db_partitions := filter (\<lambda>p. pt_name p \<noteq> name) (db_partitions d),
      db_captures := filter (\<lambda>(_, r, _). \<not> list_ex (\<lambda>p. pt_name p = name \<and> in_partition (cr_ts_ms r) p)
                                        (db_partitions d)) (db_captures d)\<rparr>"

definition delete_calls_before :: "int \<Rightarrow> database \<Rightarrow> database" where
  "delete_calls_before cutoff d =
     d\<lparr>db_calls := (\<lambda>k. case db_calls d k of
         None \<Rightarrow> None | Some c \<Rightarrow> if last_ts c < cutoff then None else Some c)\<rparr>"

definition apply_retention :: "int \<Rightarrow> config \<Rightarrow> database \<Rightarrow> database" where
  "apply_retention now_ns cfg d =
     (let d1 = fold drop_partition
                 (drop_old_partitions (now_ns div 1000000) (retention_days cfg)
                    (map pt_name (db_partitions d))) d
      in if retention_days cfg > 0
         then delete_calls_before (call_cutoff_ms now_ns (retention_days cfg)) d1 else d1)"

subsection \<open>The writer\<close>

definition flush :: "db_behaviour \<Rightarrow> writer \<Rightarrow> writer" where
  "flush b w =
     (if w_batch w = [] then w
      else
        (let parsed = map unmarshal_record (w_batch w);
             recs = List.map_filter id parsed;
             m1 = fold (\<lambda>p m. case p of None \<Rightarrow> inc db_err_update 1 m | Some _ \<Rightarrow> m) parsed (w_metrics w);
             (d, failed) = db_batch_insert b recs (w_batch w) (w_db w);
             m2 = (if failed then inc db_err_update (word_of_nat (length recs)) m1
                   else inc db_ok_update (word_of_nat (length recs)) m1)
         in \<lparr>w_batch = [], w_db = d, w_metrics = m2\<rparr>))"

text \<open>One round of the \<^verbatim>\<open>select\<close> loop; after \<open>Stop\<close> the loop has returned.\<close>

definition writer_step :: "config \<Rightarrow> db_behaviour \<Rightarrow> writer_event \<Rightarrow> writer \<Rightarrow> writer" where
  "writer_step cfg b ev w =
     (case ev of
        Receive r \<Rightarrow>
          (let w1 = w\<lparr>w_batch := w_batch w @ [r]\<rparr>
           in if length (w_batch w1) \<ge> batch_size then flush b w1 else w1)
      | FlushTick \<Rightarrow> flush b w
      | PartitionTick today \<Rightarrow> w\<lparr>w_db := fold create_partition (ensure_partitions today) (w_db w)\<rparr>
      | RetentionTick now \<Rightarrow> w\<lparr>w_db := apply_retention now cfg (w_db w)\<rparr>
      | Stop \<Rightarrow> flush b w)"

fun writer_run :: "config \<Rightarrow> (db_behaviour \<times> writer_event) list \<Rightarrow> writer \<Rightarrow> writer" where
  "writer_run cfg [] w = w"
| "writer_run cfg ((b, ev) # evs) w =
     (let w1 = writer_step cfg b ev w in
      case ev of Stop \<Rightarrow> w1 | _ \<Rightarrow> writer_run cfg evs w1)"

subsection \<open>Every record is accounted for\<close>

definition settled :: "metrics \<Rightarrow> i64" where
  "settled m = db_ok m + db_err m"

text \<open>The records received before the writer stops.\<close>

fun received :: "(db_behaviour \<times> writer_event) list \<Rightarrow> nat" where
  "received [] = 0"
| "received ((b, ev) # evs) =
     (case ev of Receive _ \<Rightarrow> Suc (received evs) | Stop \<Rightarrow> 0 | _ \<Rightarrow> received evs)"

lemma settled_inc [simp]:
  "settled (inc db_err_update d m) = settled m + d" "settled (inc db_ok_update d m) = settled m + d"
  by (simp_all add: settled_def inc_def)

lemma count_errors:
  "settled (fold (\<lambda>p m. case p of None \<Rightarrow> inc db_err_update 1 m | Some _ \<Rightarrow> m) ps m)
     + word_of_nat (length (List.map_filter id ps))
   = settled m + word_of_nat (length ps)"
  by (induction ps arbitrary: m) (auto simp: map_filter_simps split: option.splits)

lemma flush_settles:
  "settled (w_metrics (flush b w)) = settled (w_metrics w) + word_of_nat (length (w_batch w))
   \<and> w_batch (flush b w) = []"
  using count_errors [of "map unmarshal_record (w_batch w)" "w_metrics w"]
  by (simp add: flush_def Let_def split: prod.split)

lemma writer_step_settles:
  "settled (w_metrics (writer_step cfg b ev w)) + word_of_nat (length (w_batch (writer_step cfg b ev w)))
   = settled (w_metrics w) + word_of_nat (length (w_batch w)) + (case ev of Receive _ \<Rightarrow> 1 | _ \<Rightarrow> 0)"
  using flush_settles [of b] by (simp add: writer_step_def Let_def split: writer_event.split)

lemma writer_run_settles:
  "settled (w_metrics (writer_run cfg evs w)) + word_of_nat (length (w_batch (writer_run cfg evs w)))
   = settled (w_metrics w) + word_of_nat (length (w_batch w)) + word_of_nat (received evs)"
proof (induction evs arbitrary: w)
  case (Cons e evs)
  obtain b ev where e: "e = (b, ev)" by (cases e)
  show ?case
    using Cons [of "writer_step cfg b ev w"] writer_step_settles [of cfg b ev w]
    by (cases ev) (simp_all add: e Let_def)
qed simp

lemma writer_run_batch:
  "length (w_batch w) < batch_size \<Longrightarrow> length (w_batch (writer_run cfg evs w)) < batch_size"
proof (induction evs arbitrary: w)
  case (Cons e evs)
  obtain b ev where e: "e = (b, ev)" by (cases e)
  have "length (w_batch (writer_step cfg b ev w)) < batch_size"
    using Cons.prems flush_settles [of b]
    by (cases ev) (simp_all add: writer_step_def Let_def batch_size_def)
  then show ?case
    using Cons.IH [of "writer_step cfg b ev w"] by (cases ev) (simp_all add: e Let_def)
qed simp

subsection \<open>Rows keep their own text\<close>

definition own_text :: "database \<Rightarrow> bool" where
  "own_text d \<longleftrightarrow> list_all (\<lambda>(i, r, raw). unmarshal_record raw = Some r) (db_captures d)"

lemma insert_one_own_text:
  "own_text (tx_db t) \<Longrightarrow> unmarshal_record raw = Some r \<Longrightarrow> own_text (tx_db (insert_one b r raw t))"
  by (simp add: insert_one_def insert_capture_def own_text_def Let_def)

lemma insert_loop_own_text:
  "own_text (tx_db t) \<Longrightarrow> \<forall>j < length rs. unmarshal_record (raw_at raws (i + j)) = Some (rs ! j) \<Longrightarrow>
   own_text (tx_db (insert_loop b raws i rs t))"
proof (induction rs arbitrary: i t)
  case (Cons r rs)
  have "unmarshal_record (raw_at raws i) = Some r"
    using Cons.prems(2) by (metis add_0_right length_greater_0_conv list.distinct(1) nth_Cons_0)
  then have "own_text (tx_db (insert_one b r (raw_at raws i) t))"
    using Cons.prems(1) by (intro insert_one_own_text)
  moreover have "\<forall>j < length rs. unmarshal_record (raw_at raws (Suc i + j)) = Some (rs ! j)"
    using Cons.prems(2) by fastforce
  ultimately show ?case using Cons.IH by simp
qed simp

lemma batch_insert_own_text:
  assumes "own_text d" "list_all2 (\<lambda>raw r. unmarshal_record raw = Some r) raws recs"
  shows "own_text (fst (db_batch_insert b recs raws d))"
proof -
  have "\<forall>j < length recs. unmarshal_record (raw_at raws (0 + j)) = Some (recs ! j)"
    using assms(2) by (simp add: raw_at_def list_all2_conv_all_nth)
  from insert_loop_own_text [OF _ this, of "\<lparr>tx_db = d, tx_aborted = False, tx_counts = []\<rparr>" b]
  show ?thesis
    using assms(1) rollup_keeps by (auto simp: db_batch_insert_def own_text_def Let_def)
qed

lemma parsed_all:
  "list_all (\<lambda>raw. unmarshal_record raw \<noteq> None) raws \<Longrightarrow>
   list_all2 (\<lambda>raw r. unmarshal_record raw = Some r) raws
     (List.map_filter id (map unmarshal_record raws))"
  by (induction raws) (auto simp: map_filter_simps)

lemma flush_own_text:
  assumes "own_text (w_db w)" "list_all (\<lambda>raw. unmarshal_record raw \<noteq> None) (w_batch w)"
  shows "own_text (w_db (flush b w))"
  using batch_insert_own_text [OF assms(1) parsed_all [OF assms(2)], of b] assms(1)
  by (auto simp: flush_def Let_def split: prod.split)

text \<open>
  After a record that cannot be read, the texts are one place behind the rows: the index
  of \<^verbatim>\<open>recs\<close> is used for \<^verbatim>\<open>batch\<close>.
\<close>

lemma flush_misplaced_text:
  assumes "unmarshal_record bad = None" "unmarshal_record good = Some r"
    and "begin_ok b" "prepare_ok b" "commit_ok b" "accepts b r"
    and "w_batch w = [bad, good]"
  shows "db_captures (w_db (flush b w)) = db_captures (w_db w) @ [(db_next_id (w_db w), r, bad)]"
proof -
  define t where "t = \<lparr>tx_db = w_db w, tx_aborted = False, tx_counts = []\<rparr>"
  have "\<not> tx_aborted (insert_one b r bad t)"
    "db_captures (tx_db (insert_one b r bad t)) = db_captures (w_db w) @ [(db_next_id (w_db w), r, bad)]"
    using assms(6) by (simp_all add: insert_one_def insert_capture_def t_def Let_def)
  then show ?thesis
    using assms rollup_keeps [of "tx_counts (insert_one b r bad t)" "insert_one b r bad t"]
    by (simp add: flush_def db_batch_insert_def raw_at_def map_filter_simps t_def Let_def)
qed

subsection \<open>Partitions over a run\<close>

lemma retention_keeps_captures:
  "db_captures (apply_retention now cfg d) = db_captures d"
  "db_partitions (apply_retention now cfg d) = db_partitions d"
  by (simp_all add: apply_retention_def drops_nothing delete_calls_before_def Let_def)

lemma create_partition_captures [simp]: "db_captures (create_partition p d) = db_captures d"
  by (simp add: create_partition_def)

lemma create_partitions_captures [simp]: "db_captures (fold create_partition ps d) = db_captures d"
  by (induction ps arbitrary: d) simp_all

definition all_readable :: "(db_behaviour \<times> writer_event) list \<Rightarrow> bool" where
  "all_readable evs = list_all (\<lambda>(b, ev). case ev of Receive r \<Rightarrow> unmarshal_record r \<noteq> None | _ \<Rightarrow> True) evs"

lemma writer_run_own_text:
  assumes "own_text (w_db w)" "list_all (\<lambda>raw. unmarshal_record raw \<noteq> None) (w_batch w)"
    and "all_readable evs"
  shows "own_text (w_db (writer_run cfg evs w))"
  using assms
proof (induction evs arbitrary: w)
  case (Cons e evs)
  obtain b ev where e: "e = (b, ev)" by (cases e)
  have step: "own_text (w_db (writer_step cfg b ev w))
     \<and> list_all (\<lambda>raw. unmarshal_record raw \<noteq> None) (w_batch (writer_step cfg b ev w))"
  proof (cases ev)
    case (Receive r)
    then have "list_all (\<lambda>raw. unmarshal_record raw \<noteq> None) (w_batch w @ [r])"
      using Cons.prems by (simp add: all_readable_def e)
    then show ?thesis
      using Receive Cons.prems(1) flush_own_text [of "w\<lparr>w_batch := w_batch w @ [r]\<rparr>" b]
        flush_settles [of b "w\<lparr>w_batch := w_batch w @ [r]\<rparr>"]
      by (simp add: writer_step_def Let_def)
  qed (use Cons.prems flush_own_text [of w b] flush_settles [of b w] retention_keeps_captures in
      \<open>simp_all add: writer_step_def own_text_def\<close>)
  have "all_readable evs" using Cons.prems(3) by (simp add: all_readable_def e)
  then have "own_text (w_db (writer_run cfg evs (writer_step cfg b ev w)))"
    using Cons.IH step by blast
  then show ?case using step by (cases ev) (simp_all add: e Let_def)
qed simp

text \<open>Partitions never share a time stamp, so a row has one home.\<close>

definition disjoint_partitions :: "database \<Rightarrow> bool" where
  "disjoint_partitions d \<longleftrightarrow> (\<forall>ts. length (filter (in_partition ts) (db_partitions d)) \<le> 1)"

lemma overlap_in: "in_partition ts p \<Longrightarrow> in_partition ts q \<Longrightarrow> overlap p q"
  by (simp add: in_partition_def overlap_def)

lemma create_partition_disjoint: "disjoint_partitions d \<Longrightarrow> disjoint_partitions (create_partition p d)"
proof -
  assume d: "disjoint_partitions d"
  have "filter (in_partition ts) (db_partitions d) = []"
    if "\<forall>q \<in> set (db_partitions d). \<not> overlap p q" "in_partition ts p" for ts
    using that overlap_in by (auto simp: filter_empty_conv)
  with d show ?thesis
    by (auto simp: disjoint_partitions_def create_partition_def list_ex_iff)
qed

subsection \<open>Properties\<close>

text \<open>C6: whatever the database does, each record the writer received is counted as stored or as an
  error exactly once, or is among the fewer than 100 of the batch; after \<open>Stop\<close> the batch is empty.\<close>

theorem writer_accounts_for_records:
  assumes "w_batch w = []" "settled (w_metrics w) = 0"
  shows "db_ok (w_metrics (writer_run cfg evs w)) + db_err (w_metrics (writer_run cfg evs w))
      + word_of_nat (length (w_batch (writer_run cfg evs w))) = word_of_nat (received evs)
    \<and> length (w_batch (writer_run cfg evs w)) < 100
    \<and> w_batch (writer_step cfg b Stop (writer_run cfg evs w)) = []"
  using writer_run_settles [of cfg evs w] writer_run_batch [of w cfg evs] flush_settles assms
  by (simp add: settled_def batch_size_def writer_step_def)

definition idle_writer :: writer where
  "idle_writer = \<lparr>w_batch = [], w_db = empty_db, w_metrics = new_metrics 0\<rparr>"

theorem writer_accounts_for_records_witness:
  "db_ok (w_metrics (writer_run (load_config (\<lambda>_. []) [])
       [(working_db, Receive ''x''), (working_db, FlushTick), (working_db, Receive ''y'')] idle_writer))
   + db_err (w_metrics (writer_run (load_config (\<lambda>_. []) [])
       [(working_db, Receive ''x''), (working_db, FlushTick), (working_db, Receive ''y'')] idle_writer))
   + word_of_nat (length (w_batch (writer_run (load_config (\<lambda>_. []) [])
       [(working_db, Receive ''x''), (working_db, FlushTick), (working_db, Receive ''y'')] idle_writer)))
   = 2"
  using writer_accounts_for_records [of idle_writer "load_config (\<lambda>_. []) []"
      "[(working_db, Receive ''x''), (working_db, FlushTick), (working_db, Receive ''y'')]"]
  by (simp add: idle_writer_def new_metrics_def settled_def)

text \<open>As long as only readable records arrive, each row is stored with the text it was read from,
  whatever is rejected and whenever the batch is flushed; retention and partitions never remove a row.\<close>

theorem rows_keep_their_text:
  assumes "own_text (w_db w)" "w_batch w = []" "all_readable evs"
  shows "list_all (\<lambda>(i, r, raw). unmarshal_record raw = Some r) (db_captures (w_db (writer_run cfg evs w)))"
  using writer_run_own_text [of w evs cfg] assms by (simp add: own_text_def)

theorem rows_keep_their_text_witness:
  "list_all (\<lambda>(i, r, raw). unmarshal_record raw = Some r)
     (db_captures (w_db (writer_run (load_config (\<lambda>_. []) [])
        [(working_db, Receive (make_record ascii_tables options_args)), (working_db, Stop)] idle_writer)))"
proof (rule rows_keep_their_text)
  have "args_in_range options_args"
    by (simp add: args_in_range_def options_args_def options_request_def render_msg_def header_line_def crlf_def)
  then show "all_readable [(working_db, Receive (make_record ascii_tables options_args)), (working_db, Stop)]"
    by (simp add: all_readable_def unmarshal_make_record)
qed (simp_all add: idle_writer_def own_text_def empty_db_def)

text \<open>After a record that cannot be read, the next row is stored with that record's text: the
  index into the readable records is used for the whole batch.\<close>

theorem unreadable_record_shifts_texts:
  assumes "unmarshal_record bad = None" "unmarshal_record good = Some r"
    and "begin_ok b" "prepare_ok b" "commit_ok b" "accepts b r"
    and "w_batch w = [bad, good]"
  shows "db_captures (w_db (flush b w)) = db_captures (w_db w) @ [(db_next_id (w_db w), r, bad)]"
  using assms by (rule flush_misplaced_text)

theorem unreadable_record_shifts_texts_witness:
  "map (\<lambda>(i, r, raw). raw) (db_captures (w_db (flush working_db
     (idle_writer\<lparr>w_batch := [''x'', make_record ascii_tables options_args]\<rparr>)))) = [''x'']"
proof -
  have "args_in_range options_args"
    by (simp add: args_in_range_def options_args_def options_request_def render_msg_def header_line_def crlf_def)
  then have good: "unmarshal_record (make_record ascii_tables options_args)
      = Some (stored_record ascii_tables options_args)"
    by (rule unmarshal_make_record)
  have bad: "unmarshal_record ''x'' = None" by (simp add: unmarshal_record_def parse_object_def)
  have "cr_ts_ms (stored_record ascii_tables options_args) = 1700000000000"
    by (simp add: stored_record_def options_args_def Let_def)
  then show ?thesis
    using unreadable_record_shifts_texts [OF bad good, of working_db
        "idle_writer\<lparr>w_batch := [''x'', make_record ascii_tables options_args]\<rparr>"]
    by (simp add: working_db_def idle_writer_def empty_db_def)
qed

end
