(* ===== verification/Limiter.thy ===== *)
theory Limiter
  imports Prelude
begin

text \<open>
  The two rate limiters: requests per second and address (\<^verbatim>\<open>apiRateLimiter\<close> of
  \<^verbatim>\<open>core-go/api.go\<close>) and failed logins per minute and address (\<^verbatim>\<open>rateLimiter\<close> of
  \<^verbatim>\<open>web/main.go\<close>). Both promise the locale \<open>window_limiter\<close>: within a window of time at
  most \<open>limit\<close> admissions of one client, whatever the other clients do. Times are seconds
  of \<^verbatim>\<open>time.Now().Unix()\<close>; each call is under the limiter's mutex.
\<close>

locale window_limiter =
  fixes ask :: "string \<Rightarrow> int \<Rightarrow> 's \<Rightarrow> bool \<times> 's"
    and used :: "string \<Rightarrow> int \<Rightarrow> 's \<Rightarrow> nat"
    and limit :: nat
    and width :: int
  assumes admits_below: "t \<le> now \<Longrightarrow> now \<le> t + width \<Longrightarrow> fst (ask ip now s) \<Longrightarrow> used ip t s < limit"
    and admits_charge: "t \<le> now \<Longrightarrow> now \<le> t + width \<Longrightarrow> fst (ask ip now s) \<Longrightarrow>
          used ip t (snd (ask ip now s)) = Suc (used ip t s)"
    and keeps_charge: "t \<le> now \<Longrightarrow> now \<le> t + width \<Longrightarrow> used ip t s \<le> used ip t (snd (ask ip' now s))"
begin

fun asks :: "(string \<times> int) list \<Rightarrow> 's \<Rightarrow> bool list \<times> 's" where
  "asks [] s = ([], s)"
| "asks ((ip, now) # calls) s =
     (case ask ip now s of (ok, s1) \<Rightarrow> case asks calls s1 of (oks, s2) \<Rightarrow> (ok # oks, s2))"

definition admitted :: "string \<Rightarrow> (string \<times> int) list \<Rightarrow> bool list \<Rightarrow> nat" where
  "admitted ip calls oks = length (filter (\<lambda>((ip', _), ok). ip' = ip \<and> ok) (zip calls oks))"

lemma admitted_bound:
  assumes "\<forall>(ip', now) \<in> set calls. t \<le> now \<and> now \<le> t + width"
  shows "used ip t s + admitted ip calls (fst (asks calls s)) \<le> max (used ip t s) limit"
  using assms
proof (induction calls arbitrary: s)
  case Nil
  then show ?case by (simp add: admitted_def)
next
  case (Cons c calls)
  obtain ip' now where c: "c = (ip', now)" by (cases c)
  then have t: "t \<le> now" "now \<le> t + width" using Cons.prems by auto
  let ?s1 = "snd (ask ip' now s)"
  have IH: "used ip t ?s1 + admitted ip calls (fst (asks calls ?s1)) \<le> max (used ip t ?s1) limit"
    using Cons by auto
  have adm: "admitted ip (c # calls) (fst (asks (c # calls) s))
      = (if ip' = ip \<and> fst (ask ip' now s) then 1 else 0) + admitted ip calls (fst (asks calls ?s1))"
    by (simp add: admitted_def c split: prod.split)
  show ?case
  proof (cases "ip' = ip \<and> fst (ask ip' now s)")
    case True
    then have "used ip t s < limit" "used ip t ?s1 = Suc (used ip t s)"
      using admits_below admits_charge t by auto
    then show ?thesis using IH adm True by simp
  next
    case False
    then have "admitted ip (c # calls) (fst (asks (c # calls) s)) = admitted ip calls (fst (asks calls ?s1))"
      using adm by auto
    then show ?thesis using IH keeps_charge [OF t, of ip s ip'] by linarith
  qed
qed

lemma admitted_limit:
  assumes "\<forall>(ip', now) \<in> set calls. t \<le> now \<and> now \<le> t + width"
  shows "admitted ip calls (fst (asks calls s)) \<le> limit"
  using admitted_bound [OF assms, of ip s] by linarith

end

subsection \<open>Requests per second\<close>

record api_limiter =
  al_buckets :: "string \<Rightarrow> nat"
  al_second :: int

definition new_api_limiter :: api_limiter where
  "new_api_limiter = \<lparr>al_buckets = (\<lambda>_. 0), al_second = 0\<rparr>"

text \<open>\<^verbatim>\<open>allow(ip, max)\<close>; a key missing from \<^verbatim>\<open>buckets\<close> reads as 0.\<close>

definition api_allow :: "int \<Rightarrow> string \<Rightarrow> int \<Rightarrow> api_limiter \<Rightarrow> bool \<times> api_limiter" where
  "api_allow maxn ip sec rl =
     (if maxn \<le> 0 then (True, rl)
      else
        (let rl1 = (if sec \<noteq> al_second rl then \<lparr>al_buckets = (\<lambda>_. 0), al_second = sec\<rparr> else rl);
             n = al_buckets rl1 ip + 1
         in (int n \<le> maxn, rl1\<lparr>al_buckets := (al_buckets rl1)(ip := n)\<rparr>)))"

definition api_used :: "string \<Rightarrow> int \<Rightarrow> api_limiter \<Rightarrow> nat" where
  "api_used ip sec rl = (if al_second rl = sec then al_buckets rl ip else 0)"

interpretation api_window: window_limiter "api_allow (int (Suc n))" api_used "Suc n" 0
  for n
  by unfold_locales (auto simp: api_allow_def api_used_def Let_def split: if_splits)

text \<open>The limit is reached, not only respected: in a new second the first requests pass.\<close>

fun ask_times :: "nat \<Rightarrow> int \<Rightarrow> string \<Rightarrow> int \<Rightarrow> api_limiter \<Rightarrow> bool list" where
  "ask_times 0 maxn ip sec rl = []"
| "ask_times (Suc k) maxn ip sec rl =
     (case api_allow maxn ip sec rl of (ok, rl1) \<Rightarrow> ok # ask_times k maxn ip sec rl1)"

lemma ask_times_exact:
  assumes "0 < maxn"
  shows "ask_times k maxn ip sec rl
    = map (\<lambda>i. int (api_used ip sec rl + i) < maxn) [0..<k]"
proof (induction k arbitrary: rl)
  case (Suc k)
  obtain ok rl1 where a: "api_allow maxn ip sec rl = (ok, rl1)" by (cases "api_allow maxn ip sec rl")
  then have "ok \<longleftrightarrow> int (api_used ip sec rl) < maxn" "api_used ip sec rl1 = Suc (api_used ip sec rl)"
    using assms by (auto simp: api_allow_def api_used_def Let_def split: if_splits)
  then show ?case
    using Suc [of rl1] a by (simp add: upt_rec [of 0 "Suc k"] map_Suc_upt [symmetric] ac_simps del: upt_Suc)
qed simp

subsection \<open>Failed logins per minute\<close>

type_synonym login_limiter = "string \<Rightarrow> int list"

definition new_login_limiter :: login_limiter where
  "new_login_limiter = (\<lambda>_. [])"

definition login_record :: "string \<Rightarrow> int \<Rightarrow> login_limiter \<Rightarrow> login_limiter" where
  "login_record ip now rl = rl(ip := rl ip @ [now])"

definition login_allow :: "string \<Rightarrow> int \<Rightarrow> login_limiter \<Rightarrow> bool \<times> login_limiter" where
  "login_allow ip now rl =
     (let cutoff = now - 60; kept = filter (\<lambda>ts. ts \<ge> cutoff) (rl ip)
      in (length kept < 5, rl(ip := kept)))"

text \<open>A login that fails: admitted first, recorded after.\<close>

definition failed_login :: "string \<Rightarrow> int \<Rightarrow> login_limiter \<Rightarrow> bool \<times> login_limiter" where
  "failed_login ip now rl =
     (case login_allow ip now rl of (ok, rl1) \<Rightarrow> (ok, if ok then login_record ip now rl1 else rl1))"

definition login_used :: "string \<Rightarrow> int \<Rightarrow> login_limiter \<Rightarrow> nat" where
  "login_used ip t rl = length (filter (\<lambda>ts. ts \<ge> t) (rl ip))"

lemma login_used_allow:
  assumes "now \<le> t + 60"
  shows "login_used ip t (snd (login_allow ip' now rl)) = login_used ip t rl"
proof -
  have "filter (\<lambda>ts. ts \<ge> t) (filter (\<lambda>ts. ts \<ge> now - 60) xs) = filter (\<lambda>ts. ts \<ge> t) xs" for xs :: "int list"
    using assms by (auto intro: filter_cong)
  then show ?thesis by (simp add: login_used_def login_allow_def Let_def)
qed

lemma login_used_record:
  "t \<le> now \<Longrightarrow> login_used ip t (login_record ip' now rl) = login_used ip t rl + (if ip = ip' then 1 else 0)"
  by (simp add: login_used_def login_record_def)

interpretation login_window: window_limiter failed_login login_used 5 60
proof unfold_locales
  fix t now :: int and ip ip' and s :: login_limiter
  assume t: "t \<le> now" "now \<le> t + 60"
  show "login_used ip t s < 5" if "fst (failed_login ip now s)"
  proof -
    have "length (filter (\<lambda>ts. ts \<ge> t) xs) \<le> length (filter (\<lambda>ts. ts \<ge> now - 60) xs)" for xs :: "int list"
      using t by (induction xs) auto
    then show ?thesis
      using that le_less_trans
      by (fastforce simp: failed_login_def login_allow_def login_used_def Let_def)
  qed
  show "login_used ip t (snd (failed_login ip now s)) = Suc (login_used ip t s)"
    if "fst (failed_login ip now s)"
    using that t login_used_allow [of now t ip ip s]
    by (simp add: failed_login_def login_used_record split: prod.splits)
  show "login_used ip t s \<le> login_used ip t (snd (failed_login ip' now s))"
    using t login_used_allow [of now t ip ip' s]
    by (cases "login_allow ip' now s") (simp add: failed_login_def login_used_record)
qed

subsection \<open>Sequences of calls\<close>

text \<open>The answers to a sequence of calls, each with its address and time.\<close>

fun api_answers :: "int \<Rightarrow> (string \<times> int) list \<Rightarrow> api_limiter \<Rightarrow> bool list" where
  "api_answers maxn [] rl = []"
| "api_answers maxn ((ip, now) # calls) rl =
     (case api_allow maxn ip now rl of (ok, rl1) \<Rightarrow> ok # api_answers maxn calls rl1)"

fun login_answers :: "(string \<times> int) list \<Rightarrow> login_limiter \<Rightarrow> bool list" where
  "login_answers [] rl = []"
| "login_answers ((ip, now) # calls) rl =
     (case failed_login ip now rl of (ok, rl1) \<Rightarrow> ok # login_answers calls rl1)"

definition admissions :: "string \<Rightarrow> (string \<times> int) list \<Rightarrow> bool list \<Rightarrow> nat" where
  "admissions ip calls oks = length (filter (\<lambda>((ip', _), ok). ip' = ip \<and> ok) (zip calls oks))"

lemma api_answers_asks: "api_answers (int (Suc n)) calls rl = fst (api_window.asks n calls rl)"
  by (induction calls arbitrary: rl) (auto split: prod.split simp del: of_nat_Suc)

lemma login_answers_asks: "login_answers calls rl = fst (login_window.asks calls rl)"
  by (induction calls arbitrary: rl) (auto split: prod.split)

subsection \<open>Properties\<close>

text \<open>C28: in one second the API admits exactly the first \<open>max\<close> requests of an address, and in any
  interleaving with other addresses never more.\<close>

theorem api_admits_up_to_limit:
  assumes "al_second rl \<noteq> sec"
  shows "ask_times k (int (Suc n)) ip sec rl = map (\<lambda>i. i < Suc n) [0..<k]
    \<and> ((\<forall>(ip', now) \<in> set calls. now = sec) \<longrightarrow>
        admissions ip calls (api_answers (int (Suc n)) calls rl) \<le> Suc n)"
proof (intro conjI impI)
  show "ask_times k (int (Suc n)) ip sec rl = map (\<lambda>i. i < Suc n) [0..<k]"
    using ask_times_exact [of "int (Suc n)" k ip sec rl] assms by (simp add: api_used_def del: of_nat_Suc)
  assume "\<forall>(ip', now) \<in> set calls. now = sec"
  then have "\<forall>(ip', now) \<in> set calls. sec \<le> now \<and> now \<le> sec + 0" by auto
  then show "admissions ip calls (api_answers (int (Suc n)) calls rl) \<le> Suc n"
    unfolding admissions_def api_answers_asks
    by (rule api_window.admitted_limit [unfolded api_window.admitted_def])
qed

theorem api_admits_up_to_limit_witness:
  "ask_times 4 2 ''192.0.2.1'' 1700000000 new_api_limiter = [True, True, False, False]"
  using api_admits_up_to_limit [of new_api_limiter 1700000000 4 1 "''192.0.2.1''" "[]"]
  by (simp add: new_api_limiter_def upt_rec)



end
