(* ===== verification/Http.thy ===== *)
theory Http
  imports Config Utf8
begin

text \<open>
  What the handlers read of an HTTP request and write as a response, the client's address as
  the API server (\<^verbatim>\<open>core-go/api.go\<close>) and the web server (\<^verbatim>\<open>web/main.go\<close>) determine it, and
  the API key of a request. \<^verbatim>\<open>Header.Get\<close> and \<^verbatim>\<open>Query().Get\<close> give the first value of a name
  and the empty string where there is none.
\<close>

record request =
  rq_method :: string
  rq_path :: string
  rq_header :: "string \<Rightarrow> string"
  rq_query :: "string \<Rightarrow> string"
  rq_cookie :: "string \<Rightarrow> string option"
  rq_form :: "string \<Rightarrow> string"
  rq_remote :: string
  rq_body :: string

record response =
  rs_status :: nat
  rs_type :: string
  rs_body :: string

text \<open>The helper \<^verbatim>\<open>json\<close> of \<^verbatim>\<open>apiWorker\<close> and \<^verbatim>\<open>http.Error\<close>, which ends the text with a newline.\<close>

definition json_reply :: "string \<Rightarrow> response" where
  "json_reply data = \<lparr>rs_status = 200, rs_type = ''application/json; charset=utf-8'', rs_body = data\<rparr>"

definition http_error :: "string \<Rightarrow> nat \<Rightarrow> response" where
  "http_error msg code =
     \<lparr>rs_status = code, rs_type = ''text/plain; charset=utf-8'', rs_body = msg @ [CHR 0x0A]\<rparr>"

definition empty_reply :: response where
  "empty_reply = \<lparr>rs_status = 200, rs_type = [], rs_body = []\<rparr>"

definition query_int :: "request \<Rightarrow> string \<Rightarrow> int \<Rightarrow> int" where
  "query_int r key d =
     (let v = rq_query r key in
      if v = [] then d else (case atoi v of Some n \<Rightarrow> n | None \<Rightarrow> d))"

subsection \<open>The client's address\<close>

definition remote_host :: "request \<Rightarrow> string" where
  "remote_host r = (case split_host_port (rq_remote r) of Some (h, _) \<Rightarrow> h | None \<Rightarrow> [])"

definition api_client_ip :: "request \<Rightarrow> string \<Rightarrow> string" where
  "api_client_ip r trusted =
     (if trusted \<noteq> [] \<and> remote_host r = trusted then
        (let xff = rq_header r ''X-Forwarded-For''; xri = rq_header r ''X-Real-IP'' in
         if xff \<noteq> [] then trim_space (split_n 2 CHR '','' xff ! 0)
         else if xri \<noteq> [] then xri
         else remote_host r)
      else remote_host r)"

definition web_client_ip :: "request \<Rightarrow> string" where
  "web_client_ip r =
     (let xff = rq_header r ''X-Forwarded-For''; xri = rq_header r ''X-Real-IP''; host = rq_remote r in
      if xff \<noteq> [] then
        (case index_byte CHR '','' xff of
           Some i \<Rightarrow> if i > 0 then trim_space (take i xff) else trim_space xff
         | None \<Rightarrow> trim_space xff)
      else if xri \<noteq> [] then xri
      else (case last_index_byte CHR '':'' host of
              Some i \<Rightarrow> if i > 0 then take i host else host
            | None \<Rightarrow> host))"

subsection \<open>The API key\<close>

definition bearer :: "string \<Rightarrow> string option" where
  "bearer auth = (if has_prefix auth ''Bearer '' then Some (drop 7 auth) else None)"

definition request_key :: "request \<Rightarrow> string" where
  "request_key r =
     (let key = rq_header r ''X-API-Key'' in
      if key = [] then (case bearer (rq_header r ''Authorization'') of Some k \<Rightarrow> k | None \<Rightarrow> key)
      else key)"

text \<open>Whether \<^verbatim>\<open>requireAuth\<close> lets a request pass.\<close>

definition key_accepted :: "config \<Rightarrow> request \<Rightarrow> bool" where
  "key_accepted cfg r \<longleftrightarrow> (if api_key cfg \<noteq> [] then request_key r = api_key cfg else True)"

lemma api_client_ip_untrusted:
  "trusted = [] \<or> remote_host r \<noteq> trusted \<Longrightarrow> api_client_ip r trusted = remote_host r"
  by (auto simp: api_client_ip_def)

text \<open>The web server believes the forwarding header of any client.\<close>

lemma web_client_ip_forged:
  assumes "rq_header r ''X-Forwarded-For'' = ip" "ip \<noteq> []" "CHR '','' \<notin> set ip"
  shows "web_client_ip r = trim_space ip"
  using assms by (simp add: web_client_ip_def index_byte_None [THEN iffD2])

end
