(* ===== verification/Sql.thy ===== *)
theory Sql
  imports GoStrings Utf8
begin

text \<open>
  The text of the \<^verbatim>\<open>WHERE\<close> clauses the report queries are built with (\<^verbatim>\<open>sqlQuote\<close> of
  \<^verbatim>\<open>core-go/db.go\<close>, \<^verbatim>\<open>likeOrRegex\<close> and the filters of \<^verbatim>\<open>core-go/reports.go\<close>), and how
  PostgreSQL reads it: \<open>sql_items\<close> cuts a text into characters and string literals, where two
  quotes inside a literal stand for one, and \<open>like\<close> is the pattern match of \<^verbatim>\<open>LIKE\<close>. Literals
  are read with \<^verbatim>\<open>standard_conforming_strings\<close> on, PostgreSQL's default.
\<close>

abbreviation sq :: char where "sq \<equiv> CHR 0x27"

definition sql_quote :: "string \<Rightarrow> string" where
  "sql_quote s = concat (map (\<lambda>c. if c = sq then [sq, sq] else [c]) s)"

text \<open>The placeholders \<^verbatim>\<open>'%s'\<close>, \<^verbatim>\<open>'%%%s%%'\<close> and \<^verbatim>\<open>'%s%%'\<close> with a quoted value.\<close>

definition quoted_value :: "string \<Rightarrow> string" where
  "quoted_value v = sq # sql_quote v @ [sq]"

definition quoted_pattern :: "string \<Rightarrow> string" where
  "quoted_pattern v = sq # CHR ''%'' # sql_quote v @ [CHR ''%'', sq]"

definition quoted_prefix :: "string \<Rightarrow> string" where
  "quoted_prefix v = sq # sql_quote v @ [CHR ''%'', sq]"

definition like_or_regex :: "string \<Rightarrow> string \<Rightarrow> string" where
  "like_or_regex col v =
     (if has_prefix v ''/'' then '' AND '' @ col @ '' ~ '' @ quoted_value (drop 1 v)
      else '' AND '' @ col @ '' LIKE '' @ quoted_pattern v)"

subsection \<open>The filters\<close>

record call_filter =
  cf_agent :: string
  cf_state :: string
  cf_src :: string
  cf_dst :: string
  cf_from :: string
  cf_to :: string

record message_filter =
  mf_call_id :: string
  mf_transport :: string
  mf_agent :: string
  mf_method :: string
  mf_src :: string
  mf_from :: string
  mf_to :: string
  mf_status :: string
  mf_since :: string
  mf_until :: string

definition unless_empty :: "string \<Rightarrow> string \<Rightarrow> string" where
  "unless_empty v text = (if v \<noteq> [] then text else [])"

text \<open>The \<^verbatim>\<open>switch state\<close> of \<^verbatim>\<open>buildActiveCallsJSON\<close>.\<close>

definition state_text :: "string \<Rightarrow> string" where
  "state_text state =
     (if state \<in> {''open'', ''ringing''} then '' AND open=1 AND answered=0''
      else if state \<in> {''answered'', ''active''} then '' AND open=1 AND answered=1''
      else if state = ''ended'' then '' AND open=0''
      else if state = ''failed'' then '' AND open=0 AND answered=0 AND last_status >= 400''
      else if state = ''canceled'' then '' AND open=0 AND last_method LIKE '' @ [sq] @ ''%CANCEL%'' @ [sq]
      else [])"

definition active_where :: "call_filter \<Rightarrow> string" where
  "active_where f = ''1=1''
     @ unless_empty (cf_agent f) ('' AND agent='' @ quoted_value (cf_agent f))
     @ unless_empty (cf_src f) ('' AND src LIKE '' @ quoted_pattern (cf_src f))
     @ unless_empty (cf_dst f) ('' AND dst LIKE '' @ quoted_pattern (cf_dst f))
     @ unless_empty (cf_from f) ('' AND from_h LIKE '' @ quoted_pattern (cf_from f))
     @ unless_empty (cf_to f) ('' AND to_h LIKE '' @ quoted_pattern (cf_to f))
     @ state_text (cf_state f)"

text \<open>\<^verbatim>\<open>buildTopCallsJSON\<close> takes a state and does not look at it.\<close>

definition top_where :: "call_filter \<Rightarrow> string" where
  "top_where f = ''1=1''
     @ unless_empty (cf_agent f) ('' AND cs.agent='' @ quoted_value (cf_agent f))
     @ unless_empty (cf_src f) ('' AND cs.src LIKE '' @ quoted_pattern (cf_src f))
     @ unless_empty (cf_dst f) ('' AND cs.dst LIKE '' @ quoted_pattern (cf_dst f))
     @ unless_empty (cf_from f) ('' AND cs.from_h LIKE '' @ quoted_pattern (cf_from f))
     @ unless_empty (cf_to f) ('' AND cs.to_h LIKE '' @ quoted_pattern (cf_to f))"

text \<open>
  The clause of \<^verbatim>\<open>buildMessagesJSON\<close>. A status of fewer than three bytes is a prefix; a longer
  one, and the two times, go into the text without quotes around them.
\<close>

definition status_text :: "string \<Rightarrow> string" where
  "status_text v =
     (if length v < 3 then '' AND CAST(status AS TEXT) LIKE '' @ quoted_prefix v
      else '' AND status='' @ sql_quote v)"

definition messages_where :: "message_filter \<Rightarrow> string" where
  "messages_where f = ''1=1''
     @ unless_empty (mf_call_id f)
         (if has_prefix (mf_call_id f) ''/'' then '' AND call_id ~ '' @ quoted_value (drop 1 (mf_call_id f))
          else '' AND call_id='' @ quoted_value (mf_call_id f))
     @ unless_empty (mf_transport f) ('' AND transport='' @ quoted_value (mf_transport f))
     @ unless_empty (mf_agent f) ('' AND agent='' @ quoted_value (mf_agent f))
     @ unless_empty (mf_method f) ('' AND method='' @ quoted_value (mf_method f))
     @ unless_empty (mf_src f)
         (if has_prefix (mf_src f) ''/'' then
            '' AND (src ~ '' @ quoted_value (drop 1 (mf_src f)) @ '' OR dst ~ ''
              @ quoted_value (drop 1 (mf_src f)) @ '')''
          else '' AND (src LIKE '' @ quoted_pattern (mf_src f) @ '' OR dst LIKE ''
              @ quoted_pattern (mf_src f) @ '')'')
     @ unless_empty (mf_from f) (like_or_regex ''from_h'' (mf_from f))
     @ unless_empty (mf_to f) (like_or_regex ''to_h'' (mf_to f))
     @ unless_empty (mf_status f) (status_text (mf_status f))
     @ unless_empty (mf_since f) ('' AND ts_ms >= '' @ sql_quote (mf_since f))
     @ unless_empty (mf_until f) ('' AND ts_ms <= '' @ sql_quote (mf_until f))"

subsection \<open>How the database cuts a text\<close>

datatype sql_item = Ch char | Lit string

text \<open>The rest of a literal after its opening quote.\<close>

fun sql_lit :: "string \<Rightarrow> (string \<times> string) option" where
  "sql_lit [] = None"
| "sql_lit [c] = (if c = sq then Some ([], []) else None)"
| "sql_lit (c # d # t) =
     (if c \<noteq> sq then map_option (\<lambda>(x, r). (c # x, r)) (sql_lit (d # t))
      else if d = sq then map_option (\<lambda>(x, r). (sq # x, r)) (sql_lit t)
      else Some ([], d # t))"

lemma sql_lit_length: "sql_lit s = Some (x, r) \<Longrightarrow> length r < length s"
  by (induction s arbitrary: x r rule: sql_lit.induct) (fastforce split: if_splits)+

function sql_items :: "string \<Rightarrow> sql_item list option" where
  "sql_items [] = Some []"
| "sql_items (c # t) =
     (if c = sq then (case sql_lit t of
                        Some (x, r) \<Rightarrow> map_option ((#) (Lit x)) (sql_items r)
                      | None \<Rightarrow> None)
      else map_option ((#) (Ch c)) (sql_items t))"
  by pat_completeness auto
termination
  by (relation "measure length") (auto dest!: sql_lit_length)

declare sql_items.simps(2) [simp del]

lemma sql_quote_simps [simp]:
  "sql_quote [] = []" "sql_quote (sq # v) = sq # sq # sql_quote v"
  "c \<noteq> sq \<Longrightarrow> sql_quote (c # v) = c # sql_quote v"
  "sql_quote (a @ b) = sql_quote a @ sql_quote b"
  by (simp_all add: sql_quote_def)

lemma sql_quote_plain: "sq \<notin> set v \<Longrightarrow> sql_quote v = v"
  by (induction v) auto

lemma quoted_pattern_value: "quoted_pattern v = quoted_value (CHR ''%'' # v @ ''%'')"
  by (simp add: quoted_pattern_def quoted_value_def)

lemma quoted_prefix_value: "quoted_prefix v = quoted_value (v @ ''%'')"
  by (simp add: quoted_prefix_def quoted_value_def)

lemma sql_lit_quote: "rest = [] \<or> hd rest \<noteq> sq \<Longrightarrow> sql_lit (sql_quote v @ sq # rest) = Some (v, rest)"
proof (induction v)
  case Nil
  then show ?case by (cases rest) auto
next
  case (Cons c v)
  obtain d t where "sql_quote v @ sq # rest = d # t" by (cases "sql_quote v @ sq # rest") auto
  with Cons show ?case by (cases "c = sq") simp_all
qed

subsection \<open>Each value stays in its literal\<close>

definition plain :: "string \<Rightarrow> bool" where
  "plain s \<longleftrightarrow> sq \<notin> set s"

lemma sql_items_plain: "plain a \<Longrightarrow> sql_items (a @ rest) = map_option ((@) (map Ch a)) (sql_items rest)"
proof (induction a)
  case Nil
  then show ?case by (simp add: option.map_ident)
next
  case (Cons c a)
  then show ?case by (auto simp: plain_def sql_items.simps(2) option.map_comp comp_def)
qed

lemma sql_items_value:
  "rest = [] \<or> hd rest \<noteq> sq \<Longrightarrow> sql_items (quoted_value v @ rest) = map_option ((#) (Lit v)) (sql_items rest)"
  using sql_lit_quote [of rest v] by (simp add: quoted_value_def sql_items.simps(2))

text \<open>
  A piece of a clause: a text without quotes, or one with a value in it. The pieces a filter
  adds start with a blank, so no literal is followed by a quote.
\<close>

definition reads_as :: "string \<Rightarrow> sql_item list \<Rightarrow> bool" where
  "reads_as text items \<longleftrightarrow> (text = [] \<or> hd text \<noteq> sq)
     \<and> (\<forall>rest. rest = [] \<or> hd rest \<noteq> sq \<longrightarrow>
          sql_items (text @ rest) = map_option ((@) items) (sql_items rest))"

lemma reads_as_items: "reads_as text items \<Longrightarrow> sql_items text = Some items"
  by (auto simp: reads_as_def dest: spec [of _ "[]"])

lemma reads_as_plain: "plain a \<Longrightarrow> reads_as a (map Ch a)"
  unfolding reads_as_def using sql_items_plain [of a] by (cases a) (auto simp: plain_def)

lemma reads_as_append:
  assumes "reads_as a xs" "reads_as b ys"
  shows "reads_as (a @ b) (xs @ ys)"
proof -
  have "sql_items ((a @ b) @ rest) = map_option ((@) (xs @ ys)) (sql_items rest)"
    if "rest = [] \<or> hd rest \<noteq> sq" for rest
  proof -
    have "b @ rest = [] \<or> hd (b @ rest) \<noteq> sq" using assms(2) that by (cases b) (auto simp: reads_as_def)
    then have "sql_items (a @ b @ rest) = map_option ((@) xs) (sql_items (b @ rest))"
      using assms(1) unfolding reads_as_def by blast
    also have "sql_items (b @ rest) = map_option ((@) ys) (sql_items rest)"
      using assms(2) that unfolding reads_as_def by blast
    finally have "sql_items (a @ b @ rest) = map_option ((@) xs \<circ> (@) ys) (sql_items rest)"
      by (simp only: option.map_comp)
    moreover have "(@) xs \<circ> (@) ys = (@) (xs @ ys)" by auto
    ultimately show ?thesis by simp
  qed
  moreover have "a @ b = [] \<or> hd (a @ b) \<noteq> sq"
    using assms by (cases a) (auto simp: reads_as_def)
  ultimately show ?thesis by (simp add: reads_as_def)
qed

lemma reads_as_value:
  assumes "plain a" "a \<noteq> []"
  shows "reads_as (a @ quoted_value v) (map Ch a @ [Lit v])"
proof -
  have "(#) (Lit v) = (@) [Lit v]" by auto
  then have tail: "sql_items (quoted_value v @ rest) = map_option ((@) [Lit v]) (sql_items rest)"
    if "rest = [] \<or> hd rest \<noteq> sq" for rest
    using sql_items_value [OF that, of v] by simp
  have "(@) (map Ch a) \<circ> (@) [Lit v] = (@) (map Ch a @ [Lit v])" by auto
  then show ?thesis
    using assms sql_items_plain [OF assms(1)] tail
    unfolding reads_as_def by (cases a) (auto simp: plain_def option.map_comp)
qed

lemma reads_as_unless: "reads_as text items \<Longrightarrow> reads_as (unless_empty v text) (if v \<noteq> [] then items else [])"
  using reads_as_plain [of "[]"] by (simp add: unless_empty_def plain_def)

text \<open>The clauses as items: what each filter means to ask.\<close>

definition if_given :: "string \<Rightarrow> sql_item list \<Rightarrow> sql_item list" where
  "if_given v items = (if v \<noteq> [] then items else [])"

definition value_items :: "string \<Rightarrow> string \<Rightarrow> sql_item list" where
  "value_items text v = map Ch text @ [Lit v]"

definition like_items :: "string \<Rightarrow> string \<Rightarrow> sql_item list" where
  "like_items text v = value_items text (CHR ''%'' # v @ ''%'')"

definition state_items :: "string \<Rightarrow> sql_item list" where
  "state_items state =
     (if state = ''canceled'' then value_items '' AND open=0 AND last_method LIKE '' ''%CANCEL%''
      else map Ch (state_text state))"

definition active_items :: "call_filter \<Rightarrow> sql_item list" where
  "active_items f = map Ch ''1=1''
     @ if_given (cf_agent f) (value_items '' AND agent='' (cf_agent f))
     @ if_given (cf_src f) (like_items '' AND src LIKE '' (cf_src f))
     @ if_given (cf_dst f) (like_items '' AND dst LIKE '' (cf_dst f))
     @ if_given (cf_from f) (like_items '' AND from_h LIKE '' (cf_from f))
     @ if_given (cf_to f) (like_items '' AND to_h LIKE '' (cf_to f))
     @ state_items (cf_state f)"

lemma reads_value_items: "plain a \<Longrightarrow> a \<noteq> [] \<Longrightarrow> reads_as (a @ quoted_value v) (value_items a v)"
  unfolding value_items_def by (rule reads_as_value)

lemma reads_like_items: "plain a \<Longrightarrow> a \<noteq> [] \<Longrightarrow> reads_as (a @ quoted_pattern v) (like_items a v)"
  unfolding like_items_def quoted_pattern_value by (rule reads_value_items)

lemma reads_if_given: "reads_as text items \<Longrightarrow> reads_as (unless_empty v text) (if_given v items)"
  unfolding if_given_def by (rule reads_as_unless)

lemma plain_state_text: "state \<noteq> ''canceled'' \<Longrightarrow> plain (state_text state)"
  by (simp add: plain_def state_text_def)

lemma reads_state_items: "reads_as (state_text state) (state_items state)"
proof (cases "state = ''canceled''")
  case True
  have "plain '' AND open=0 AND last_method LIKE ''" by (simp add: plain_def)
  from reads_value_items [OF this, of "''%CANCEL%''"] True show ?thesis
    by (simp add: state_items_def state_text_def quoted_value_def)
next
  case False
  then show ?thesis by (simp add: state_items_def reads_as_plain plain_state_text)
qed

lemma active_where_reads: "reads_as (active_where f) (active_items f)"
  unfolding active_where_def active_items_def
  by (intro reads_as_append reads_as_plain reads_if_given reads_value_items reads_like_items
      reads_state_items) (simp_all add: plain_def)

definition top_items :: "call_filter \<Rightarrow> sql_item list" where
  "top_items f = map Ch ''1=1''
     @ if_given (cf_agent f) (value_items '' AND cs.agent='' (cf_agent f))
     @ if_given (cf_src f) (like_items '' AND cs.src LIKE '' (cf_src f))
     @ if_given (cf_dst f) (like_items '' AND cs.dst LIKE '' (cf_dst f))
     @ if_given (cf_from f) (like_items '' AND cs.from_h LIKE '' (cf_from f))
     @ if_given (cf_to f) (like_items '' AND cs.to_h LIKE '' (cf_to f))"

lemma top_where_reads: "reads_as (top_where f) (top_items f)"
  unfolding top_where_def top_items_def
  by (intro reads_as_append reads_as_plain reads_if_given reads_value_items reads_like_items)
    (simp_all add: plain_def)

definition like_or_regex_items :: "string \<Rightarrow> string \<Rightarrow> sql_item list" where
  "like_or_regex_items col v =
     (if has_prefix v ''/'' then value_items ('' AND '' @ col @ '' ~ '') (drop 1 v)
      else like_items ('' AND '' @ col @ '' LIKE '') v)"

definition both_ends_items :: "string \<Rightarrow> sql_item list" where
  "both_ends_items v =
     (if has_prefix v ''/'' then value_items '' AND (src ~ '' (drop 1 v) @ value_items '' OR dst ~ '' (drop 1 v)
      else like_items '' AND (src LIKE '' v @ like_items '' OR dst LIKE '' v) @ map Ch '')''"

text \<open>What is not quoted is read as it stands.\<close>

definition raw_items :: "string \<Rightarrow> string \<Rightarrow> sql_item list" where
  "raw_items text v = map Ch (text @ v)"

definition messages_items :: "message_filter \<Rightarrow> sql_item list" where
  "messages_items f = map Ch ''1=1''
     @ if_given (mf_call_id f)
         (if has_prefix (mf_call_id f) ''/'' then value_items '' AND call_id ~ '' (drop 1 (mf_call_id f))
          else value_items '' AND call_id='' (mf_call_id f))
     @ if_given (mf_transport f) (value_items '' AND transport='' (mf_transport f))
     @ if_given (mf_agent f) (value_items '' AND agent='' (mf_agent f))
     @ if_given (mf_method f) (value_items '' AND method='' (mf_method f))
     @ if_given (mf_src f) (both_ends_items (mf_src f))
     @ if_given (mf_from f) (like_or_regex_items ''from_h'' (mf_from f))
     @ if_given (mf_to f) (like_or_regex_items ''to_h'' (mf_to f))
     @ if_given (mf_status f)
         (if length (mf_status f) < 3
          then value_items '' AND CAST(status AS TEXT) LIKE '' (mf_status f @ ''%'')
          else raw_items '' AND status='' (mf_status f))
     @ if_given (mf_since f) (raw_items '' AND ts_ms >= '' (mf_since f))
     @ if_given (mf_until f) (raw_items '' AND ts_ms <= '' (mf_until f))"

lemma reads_like_or_regex: "plain col \<Longrightarrow> reads_as (like_or_regex col v) (like_or_regex_items col v)"
proof -
  assume "plain col"
  then have "plain ('' AND '' @ col @ '' ~ '')" "plain ('' AND '' @ col @ '' LIKE '')"
    by (auto simp: plain_def)
  from reads_value_items [OF this(1), of "drop 1 v"] reads_like_items [OF this(2), of v]
  show ?thesis by (simp add: like_or_regex_def like_or_regex_items_def)
qed

lemma reads_both_ends:
  "reads_as (if has_prefix v ''/'' then
       '' AND (src ~ '' @ quoted_value (drop 1 v) @ '' OR dst ~ '' @ quoted_value (drop 1 v) @ '')''
     else '' AND (src LIKE '' @ quoted_pattern v @ '' OR dst LIKE '' @ quoted_pattern v @ '')'')
   (both_ends_items v)"
proof -
  have p: "plain '' AND (src ~ ''" "plain '' OR dst ~ ''" "plain '' AND (src LIKE ''"
      "plain '' OR dst LIKE ''" "plain '')''"
    by (simp_all add: plain_def)
  note a = reads_as_append [OF reads_value_items [OF p(1)]
      reads_as_append [OF reads_value_items [OF p(2)] reads_as_plain [OF p(5)]], of "drop 1 v" "drop 1 v"]
  note b = reads_as_append [OF reads_like_items [OF p(3)]
      reads_as_append [OF reads_like_items [OF p(4)] reads_as_plain [OF p(5)]], of v v]
  show ?thesis using a b by (simp add: both_ends_items_def)
qed

lemma reads_raw: "plain text \<Longrightarrow> plain v \<Longrightarrow> reads_as (text @ sql_quote v) (raw_items text v)"
  unfolding raw_items_def using reads_as_plain [of "text @ v"] sql_quote_plain [of v]
  by (simp add: plain_def)

lemma reads_status:
  "plain v \<Longrightarrow> reads_as (status_text v)
     (if length v < 3 then value_items '' AND CAST(status AS TEXT) LIKE '' (v @ ''%'')
      else raw_items '' AND status='' v)"
proof -
  assume "plain v"
  moreover have "plain '' AND CAST(status AS TEXT) LIKE ''" "plain '' AND status=''" by (simp_all add: plain_def)
  ultimately show ?thesis
    using reads_value_items [of "'' AND CAST(status AS TEXT) LIKE ''" "v @ ''%''"] reads_raw [of "'' AND status=''" v]
    by (simp add: status_text_def quoted_prefix_value)
qed

lemma messages_where_reads:
  assumes "plain (mf_status f)" "plain (mf_since f)" "plain (mf_until f)"
  shows "reads_as (messages_where f) (messages_items f)"
proof -
  have id: "reads_as (if has_prefix v ''/'' then '' AND call_id ~ '' @ quoted_value (drop 1 v)
        else '' AND call_id='' @ quoted_value v)
      (if has_prefix v ''/'' then value_items '' AND call_id ~ '' (drop 1 v)
        else value_items '' AND call_id='' v)" for v
  proof -
    have "plain '' AND call_id ~ ''" "plain '' AND call_id=''" by (simp_all add: plain_def)
    from reads_value_items [OF this(1), of "drop 1 v"] reads_value_items [OF this(2), of v]
    show ?thesis by simp
  qed
  show ?thesis
    unfolding messages_where_def messages_items_def
    by (intro reads_as_append reads_as_plain reads_if_given reads_value_items id reads_both_ends
        reads_like_or_regex reads_status reads_raw assms) (simp_all add: plain_def)
qed

subsection \<open>Pattern match\<close>

text \<open>
  \<^verbatim>\<open>s LIKE p\<close> on characters: a percent sign is any text, an underscore any one character, and
  a backslash takes the next character as it is.
\<close>

function like :: "nat list \<Rightarrow> nat list \<Rightarrow> bool" where
  "like [] s = (s = [])"
| "like (p # ps) s =
     (if p = 37 then like ps s \<or> (case s of [] \<Rightarrow> False | _ # t \<Rightarrow> like (p # ps) t)
      else if p = 95 then (case s of [] \<Rightarrow> False | _ # t \<Rightarrow> like ps t)
      else if p = 92 then
        (case ps of [] \<Rightarrow> False | q # qs \<Rightarrow> (case s of [] \<Rightarrow> False | c # t \<Rightarrow> c = q \<and> like qs t))
      else (case s of [] \<Rightarrow> False | c # t \<Rightarrow> c = p \<and> like ps t))"
  by pat_completeness auto
termination
  by (relation "measure (\<lambda>(p, s). length p + length s)") auto

declare like.simps(2) [simp del]

text \<open>The match of \<^verbatim>\<open>col LIKE '%v%'\<close> and of \<^verbatim>\<open>col LIKE 'v%'\<close>.\<close>

definition has_part :: "string \<Rightarrow> string \<Rightarrow> bool" where
  "has_part s v \<longleftrightarrow> like (37 # runes v @ [37]) (runes s)"

definition starts_like :: "string \<Rightarrow> string \<Rightarrow> bool" where
  "starts_like s v \<longleftrightarrow> like (runes v @ [37]) (runes s)"

definition wild :: "nat \<Rightarrow> bool" where
  "wild r \<longleftrightarrow> r = 37 \<or> r = 95 \<or> r = 92"

lemma like_any: "like [37] s"
  by (induction s) (simp_all add: like.simps(2))

lemma like_prefix:
  "list_all (\<lambda>r. \<not> wild r) v \<Longrightarrow> like (v @ [37]) s \<longleftrightarrow> (\<exists>b. s = v @ b)"
proof (induction v arbitrary: s)
  case (Cons p v)
  then show ?case by (cases s) (auto simp: like.simps(2) wild_def)
qed (simp add: like_any)

lemma like_percent: "like (37 # p) s \<longleftrightarrow> (\<exists>a b. s = a @ b \<and> like p b)"
proof (induction s)
  case (Cons c s)
  have "like (37 # p) (c # s) \<longleftrightarrow> like p (c # s) \<or> like (37 # p) s" by (simp add: like.simps(2))
  also have "\<dots> \<longleftrightarrow> (\<exists>a b. c # s = a @ b \<and> like p b)"
    unfolding Cons.IH by (auto simp: Cons_eq_append_conv)
  finally show ?case .
qed (simp add: like.simps(2))

lemma has_part_iff:
  "list_all (\<lambda>r. \<not> wild r) (runes v) \<Longrightarrow> has_part s v \<longleftrightarrow> (\<exists>a b. runes s = a @ runes v @ b)"
  by (auto simp: has_part_def like_percent like_prefix)

subsection \<open>Properties\<close>

text \<open>C14: whatever the filters of the calls report hold, the database reads each value back as one
  literal of the clause, and the rest of the clause is the program's own text.\<close>

theorem call_filters_stay_literals:
  "sql_items (active_where f) = Some (active_items f) \<and> sql_items (top_where f) = Some (top_items f)"
  by (simp add: reads_as_items active_where_reads top_where_reads)

text \<open>C36: for the messages report the same holds as long as the status and the two times have no quote in
  them; these three, which are not between quotes, become part of the clause as they stand.\<close>

theorem message_filters_stay_literals:
  "plain (mf_status f) \<Longrightarrow> plain (mf_since f) \<Longrightarrow> plain (mf_until f) \<Longrightarrow>
   sql_items (messages_where f) = Some (messages_items f)"
  by (simp add: reads_as_items messages_where_reads)

definition no_message_filter :: message_filter where
  "no_message_filter = \<lparr>mf_call_id = [], mf_transport = [], mf_agent = [], mf_method = [], mf_src = [],
     mf_from = [], mf_to = [], mf_status = [], mf_since = [], mf_until = []\<rparr>"

theorem message_filters_stay_literals_witness:
  "sql_items (messages_where (no_message_filter\<lparr>mf_call_id := [sq], mf_status := ''200 OR 1=1''\<rparr>))
   = Some (map Ch ''1=1 AND call_id='' @ [Lit [sq]] @ map Ch '' AND status=200 OR 1=1'')"
  using message_filters_stay_literals [of "no_message_filter\<lparr>mf_call_id := [sq], mf_status := ''200 OR 1=1''\<rparr>"]
  by (simp add: no_message_filter_def plain_def messages_items_def if_given_def value_items_def raw_items_def)

text \<open>A search by part of a number or address finds exactly the rows that contain it, provided it has no
  wildcard of the pattern language in it.\<close>

theorem search_finds_substrings:
  "list_all (\<lambda>r. \<not> wild r) (runes v) \<Longrightarrow> has_part s v \<longleftrightarrow> (\<exists>a b. runes s = a @ runes v @ b)"
  by (rule has_part_iff)

theorem search_finds_substrings_witness:
  "has_part ''sip:4711@x'' ''711'' \<and> has_part ''4711'' ''%''"
proof
  have r: "runes ''711'' = [55, 49, 49]" "runes ''sip:4711@x'' = [115, 105, 112, 58, 52] @ [55, 49, 49] @ [64, 120]"
    by (simp_all add: runes_ascii)
  then have "\<exists>a b. runes ''sip:4711@x'' = a @ runes ''711'' @ b" by metis
  with r(1) show "has_part ''sip:4711@x'' ''711''"
    using search_finds_substrings [of "''711''" "''sip:4711@x''"] by (simp add: wild_def)
  show "has_part ''4711'' ''%''" by (simp add: has_part_def runes_ascii like.simps(2))
qed

end
