(* ===== verification/Document.thy ===== *)
theory Document
  imports Json
begin

text \<open>
  JSON documents as \<^verbatim>\<open>encoding/json\<close> reads them from a request body or a configuration file:
  all values, white space, nesting. A number keeps its literal, so that reading it as an
  integer can fail as Go's does. The reader is recursive over a fuel that the length of
  the text always covers. Printing without white space gives the texts the program builds
  by hand; reading them back is proved.
\<close>

datatype json =
    JNull
  | JBool bool
  | JLit string
  | JText string
  | JList "json list"
  | JObj "(string \<times> json) list"

definition json_ws :: "char \<Rightarrow> bool" where
  "json_ws c \<longleftrightarrow> c = CHR '' '' \<or> c = CHR 0x09 \<or> c = CHR 0x0A \<or> c = CHR 0x0D"

definition skip_ws :: "string \<Rightarrow> string" where
  "skip_ws s = dropWhile json_ws s"

definition lit_char :: "char \<Rightarrow> bool" where
  "lit_char c \<longleftrightarrow> is_digit c \<or> c \<in> {CHR ''-'', CHR ''+'', CHR ''.'', CHR ''e'', CHR ''E''}"

subsection \<open>Number literals\<close>

text \<open>\<open>-? (0 | [1-9][0-9]*) (. [0-9]+)? ([eE] [+-]? [0-9]+)?\<close>\<close>

definition int_part_ok :: "string \<Rightarrow> bool" where
  "int_part_ok s \<longleftrightarrow> s = ''0'' \<or> (list_all is_digit s \<and> s \<noteq> [] \<and> hd s \<noteq> CHR ''0'')"

definition digits1 :: "string \<Rightarrow> bool" where
  "digits1 s \<longleftrightarrow> s \<noteq> [] \<and> list_all is_digit s"

definition exp_ok :: "string \<Rightarrow> bool" where
  "exp_ok s =
     (case s of
        [] \<Rightarrow> True
      | c # t \<Rightarrow> (c = CHR ''e'' \<or> c = CHR ''E'')
          \<and> digits1 (case t of d # t' \<Rightarrow> if d = CHR ''+'' \<or> d = CHR ''-'' then t' else t | [] \<Rightarrow> t))"

definition frac_ok :: "string \<Rightarrow> bool" where
  "frac_ok s =
     (case s of
        c # t \<Rightarrow> (if c = CHR ''.'' then digits1 (takeWhile is_digit t) \<and> exp_ok (dropWhile is_digit t)
                 else exp_ok s)
      | [] \<Rightarrow> True)"

definition number_ok :: "string \<Rightarrow> bool" where
  "number_ok s =
     (let u = (case s of c # t \<Rightarrow> if c = CHR ''-'' then t else s | [] \<Rightarrow> s)
      in int_part_ok (takeWhile is_digit u) \<and> frac_ok (dropWhile is_digit u))"

subsection \<open>Reading\<close>

text \<open>
  \<open>read_value\<close> reads one value, \<open>read_items\<close> and \<open>read_members\<close> the rest of an array or
  object after its first bracket or a comma.
\<close>

definition read_key :: "string \<Rightarrow> (string \<times> string) option" where
  "read_key s =
     (case skip_ws s of
        q # t \<Rightarrow>
          (if q = dq then
             (case scan_str t of
                Some (k, r) \<Rightarrow> (case skip_ws r of
                    c # r1 \<Rightarrow> if c = CHR '':'' then Some (k, r1) else None
                  | [] \<Rightarrow> None)
              | None \<Rightarrow> None)
           else None)
      | [] \<Rightarrow> None)"

definition read_atom :: "string \<Rightarrow> (json \<times> string) option" where
  "read_atom s =
     (if has_prefix s ''null'' then Some (JNull, drop 4 s)
      else if has_prefix s ''true'' then Some (JBool True, drop 4 s)
      else if has_prefix s ''false'' then Some (JBool False, drop 5 s)
      else (let l = takeWhile lit_char s in
            if number_ok l then Some (JLit l, dropWhile lit_char s) else None))"

fun read_value :: "nat \<Rightarrow> string \<Rightarrow> (json \<times> string) option"
  and read_items :: "nat \<Rightarrow> string \<Rightarrow> (json list \<times> string) option"
  and read_members :: "nat \<Rightarrow> string \<Rightarrow> ((string \<times> json) list \<times> string) option" where
  "read_value 0 s = None"
| "read_value (Suc n) s =
     (case skip_ws s of
        [] \<Rightarrow> None
      | c # t \<Rightarrow>
          if c = dq then map_option (\<lambda>(x, r). (JText x, r)) (scan_str t)
          else if c = CHR ''['' then
            (case skip_ws t of
               [] \<Rightarrow> None
             | d # r \<Rightarrow> if d = CHR '']'' then Some (JList [], r)
                        else map_option (\<lambda>(vs, r'). (JList vs, r')) (read_items n t))
          else if c = CHR ''{'' then
            (case skip_ws t of
               [] \<Rightarrow> None
             | d # r \<Rightarrow> if d = CHR ''}'' then Some (JObj [], r)
                        else map_option (\<lambda>(ms, r'). (JObj ms, r')) (read_members n t))
          else read_atom (c # t))"
| "read_items 0 s = None"
| "read_items (Suc n) s =
     (case read_value n s of
        None \<Rightarrow> None
      | Some (v, r) \<Rightarrow>
          (case skip_ws r of
             [] \<Rightarrow> None
           | c # t \<Rightarrow>
               if c = CHR '']'' then Some ([v], t)
               else if c = CHR '','' then map_option (\<lambda>(vs, r'). (v # vs, r')) (read_items n t)
               else None))"
| "read_members 0 s = None"
| "read_members (Suc n) s =
     (case read_key s of
        None \<Rightarrow> None
      | Some (k, r0) \<Rightarrow>
          (case read_value n r0 of
             None \<Rightarrow> None
           | Some (v, r) \<Rightarrow>
               (case skip_ws r of
                  [] \<Rightarrow> None
                | c # t \<Rightarrow>
                    if c = CHR ''}'' then Some ([(k, v)], t)
                    else if c = CHR '','' then map_option (\<lambda>(ms, r'). ((k, v) # ms, r')) (read_members n t)
                    else None)))"

text \<open>The fuel: two calls for each byte and two more are always enough (\<open>fuel_enough\<close>).\<close>

definition fuel_for :: "string \<Rightarrow> nat" where
  "fuel_for s = 2 * length s + 2"

text \<open>\<^verbatim>\<open>NewDecoder(body).Decode\<close> reads the first value; \<^verbatim>\<open>Unmarshal\<close> wants nothing after it.\<close>

definition decode_first :: "string \<Rightarrow> json option" where
  "decode_first s = map_option fst (read_value (fuel_for s) s)"

definition decode_all :: "string \<Rightarrow> json option" where
  "decode_all s =
     (case read_value (fuel_for s) s of
        Some (v, r) \<Rightarrow> if skip_ws r = [] then Some v else None
      | None \<Rightarrow> None)"

subsection \<open>Enough fuel\<close>

lemma skip_ws_length: "length (skip_ws s) \<le> length s"
  unfolding skip_ws_def by (rule length_dropWhile_le)

lemma skip_ws_Cons: "skip_ws s = c # t \<Longrightarrow> length t < length s"
  using skip_ws_length [of s] by simp

lemma read_key_length: "read_key s = Some (k, r) \<Longrightarrow> length r < length s"
  by (auto simp: read_key_def dest!: skip_ws_Cons scan_str_length
      split: list.splits option.splits if_splits)

lemma number_ok_not_Nil: "number_ok l \<Longrightarrow> l \<noteq> []"
  by (auto simp: number_ok_def int_part_ok_def)

lemma read_atom_length: "read_atom s = Some (v, r) \<Longrightarrow> length r < length s"
proof -
  assume a: "read_atom s = Some (v, r)"
  have lit: "length (dropWhile lit_char s) < length s" if "number_ok (takeWhile lit_char s)"
    using number_ok_not_Nil [OF that] arg_cong [OF takeWhile_dropWhile_id [of lit_char s], of length]
    by (cases "takeWhile lit_char s") simp_all
  have pre: "length p \<le> length s" if "has_prefix s p" for p
    using that by (auto simp: has_prefix_iff)
  show ?thesis
    using a lit pre [of "''null''"] pre [of "''true''"] pre [of "''false''"]
    by (auto simp: read_atom_def Let_def split: if_splits)
qed

lemma read_length:
  "read_value n s = Some (v, r) \<Longrightarrow> length r < length s"
  "read_items n s = Some (vs, r) \<Longrightarrow> length r < length s"
  "read_members n s = Some (ms, r) \<Longrightarrow> length r < length s"
proof (induction n arbitrary: s v vs ms r)
  case (Suc n)
  {
    case 1
    then show ?case
      using Suc.IH(2,3)
      by (fastforce dest!: skip_ws_Cons scan_str_length read_atom_length
          split: list.splits if_splits)
  next
    case 2
    then show ?case
      using Suc.IH(1,2)
      by (fastforce dest!: skip_ws_Cons split: list.splits option.splits if_splits)
  next
    case 3
    then show ?case
      using Suc.IH(1,3)
      by (fastforce dest!: skip_ws_Cons read_key_length split: list.splits option.splits if_splits)
  }
qed simp_all

text \<open>More than two calls per byte change nothing.\<close>

lemma read_fuel:
  "2 * length s + 1 \<le> n \<Longrightarrow> 2 * length s + 1 \<le> m \<Longrightarrow> read_value n s = read_value m s"
  "2 * length s + 2 \<le> n \<Longrightarrow> 2 * length s + 2 \<le> m \<Longrightarrow> read_items n s = read_items m s"
  "2 * length s + 2 \<le> n \<Longrightarrow> 2 * length s + 2 \<le> m \<Longrightarrow> read_members n s = read_members m s"
proof (induction n arbitrary: s m)
  case (Suc n)
  {
    case 1
    then obtain m' where m: "m = Suc m'" by (cases m) auto
    have "read_items n t = read_items m' t" "read_members n t = read_members m' t"
      if "skip_ws s = c # t" for c t
      using Suc.IH(2,3) [of t m'] 1 m skip_ws_Cons [OF that] by auto
    then show ?case by (simp add: m split: list.split)
  next
    case 2
    then obtain m' where m: "m = Suc m'" by (cases m) auto
    have v: "read_value n s = read_value m' s" using Suc.IH(1) [of s m'] 2 m by auto
    have "read_items n t = read_items m' t"
      if "read_value m' s = Some (v, r)" "skip_ws r = c # t" for v r c t
      using Suc.IH(2) [of t m'] 2 m skip_ws_Cons [OF that(2)] read_length(1) [OF that(1)] by auto
    then show ?case by (simp add: m v split: list.split option.split prod.split)
  next
    case 3
    then obtain m' where m: "m = Suc m'" by (cases m) auto
    have v: "read_value n r = read_value m' r" if "read_key s = Some (k, r)" for k r
      using Suc.IH(1) [of r m'] 3 m read_key_length [OF that] by auto
    have "read_members n t = read_members m' t"
      if "read_key s = Some (k, r0)" "read_value m' r0 = Some (v, r)" "skip_ws r = c # t" for k r0 v r c t
      using Suc.IH(3) [of t m'] 3 m skip_ws_Cons [OF that(3)] read_length(1) [OF that(2)]
        read_key_length [OF that(1)] by auto
    then show ?case by (simp add: m v split: list.split option.split prod.split)
  }
qed simp_all

lemma fuel_enough: "fuel_for s \<le> n \<Longrightarrow> read_value n s = read_value (fuel_for s) s"
  by (rule read_fuel(1)) (simp_all add: fuel_for_def)

lemma read_more:
  "n \<le> m \<Longrightarrow> read_value n s = Some x \<Longrightarrow> read_value m s = Some x"
  "n \<le> m \<Longrightarrow> read_items n s = Some y \<Longrightarrow> read_items m s = Some y"
  "n \<le> m \<Longrightarrow> read_members n s = Some z \<Longrightarrow> read_members m s = Some z"
proof (induction n arbitrary: s m x y z)
  case (Suc n)
  {
    case 1
    then obtain m' where "m = Suc m'" "n \<le> m'" by (cases m) auto
    then show ?case using Suc.IH(2,3) [of m'] 1 by (auto split: list.splits if_splits)
  next
    case 2
    then obtain m' where "m = Suc m'" "n \<le> m'" by (cases m) auto
    then show ?case using Suc.IH(1,2) [of m'] 2
      by (fastforce split: list.splits if_splits option.splits)
  next
    case 3
    then obtain m' where "m = Suc m'" "n \<le> m'" by (cases m) auto
    then show ?case using Suc.IH(1,3) [of m'] 3
      by (fastforce split: list.splits if_splits option.splits)
  }
qed simp_all

lemmas read_value_le = read_more(1) and read_items_le = read_more(2) and read_members_le = read_more(3)

lemma read_value_fuel: "read_value n s = Some x \<Longrightarrow> read_value (fuel_for s) s = Some x"
  using fuel_enough [of s "max n (fuel_for s)"] read_value_le [of n "max n (fuel_for s)" s x] by simp

subsection \<open>Printing\<close>

text \<open>
  Documents printed without white space, strings through an escape function: the texts the
  program prints with \<^verbatim>\<open>Sprintf\<close>, \<^verbatim>\<open>jesc\<close> and \<^verbatim>\<open>Join\<close> (\<open>print_doc\<close>), and those of \<^verbatim>\<open>json.Marshal\<close>.
\<close>

fun print_with :: "(string \<Rightarrow> string) \<Rightarrow> json \<Rightarrow> string" where
  "print_with esc JNull = ''null''"
| "print_with esc (JBool b) = (if b then ''true'' else ''false'')"
| "print_with esc (JLit l) = l"
| "print_with esc (JText s) = dq # esc s @ [dq]"
| "print_with esc (JList vs) = ''['' @ join '','' (map (print_with esc) vs) @ '']''"
| "print_with esc (JObj ms) = ''{'' @ join '',''
     (map (\<lambda>m. dq # esc (fst m) @ dq # CHR '':'' # print_with esc (snd m)) ms) @ ''}''"

abbreviation print_doc :: "json \<Rightarrow> string" where
  "print_doc \<equiv> print_with jesc"

abbreviation doc_member :: "(string \<Rightarrow> string) \<Rightarrow> string \<times> json \<Rightarrow> string" where
  "doc_member esc m \<equiv> dq # esc (fst m) @ dq # CHR '':'' # print_with esc (snd m)"

definition doc_int :: "int \<Rightarrow> json" where
  "doc_int n = JLit (show_int n)"

text \<open>What reading makes of a printed document: strings with invalid UTF-8 replaced.\<close>

fun clean_doc :: "json \<Rightarrow> json" where
  "clean_doc (JText s) = JText (sanitize s)"
| "clean_doc (JList vs) = JList (map clean_doc vs)"
| "clean_doc (JObj ms) = JObj (map (\<lambda>m. (sanitize (fst m), clean_doc (snd m))) ms)"
| "clean_doc v = v"

fun doc_ok :: "json \<Rightarrow> bool" where
  "doc_ok (JLit l) \<longleftrightarrow> number_ok l \<and> list_all lit_char l"
| "doc_ok (JList vs) \<longleftrightarrow> list_all doc_ok vs"
| "doc_ok (JObj ms) \<longleftrightarrow> list_all (\<lambda>m. doc_ok (snd m)) ms"
| "doc_ok v \<longleftrightarrow> True"

lemma skip_ws_id: "\<not> json_ws c \<Longrightarrow> skip_ws (c # t) = c # t"
  by (simp add: skip_ws_def)

lemma number_ok_head: "number_ok l \<Longrightarrow> \<exists>c t. l = c # t \<and> (is_digit c \<or> c = CHR ''-'')"
  by (cases l) (auto simp: number_ok_def int_part_ok_def split: if_splits)

lemma doc_head:
  "doc_ok v \<Longrightarrow> \<exists>c t. print_with esc v = c # t \<and> \<not> json_ws c \<and> c \<noteq> CHR '']'' \<and> c \<noteq> CHR ''}''"
proof (cases v)
  case (JLit l)
  moreover assume "doc_ok v"
  ultimately show ?thesis
    using number_ok_head [of l] by (auto simp: json_ws_def is_digit_def)
qed (auto simp: json_ws_def)

lemma takeWhile_stop:
  assumes "list_all P a" "rest = [] \<or> \<not> P (hd rest)"
  shows "takeWhile P (a @ rest) = a" "dropWhile P (a @ rest) = rest"
  using assms by (induction a) (cases rest; auto)+

lemma read_literal:
  assumes "number_ok l" "list_all lit_char l" "rest = [] \<or> \<not> lit_char (hd rest)"
  shows "read_value (Suc 0) (l @ rest) = Some (JLit l, rest)"
proof -
  obtain c t where l: "l = c # t" "is_digit c \<or> c = CHR ''-''" using number_ok_head [OF assms(1)] by blast
  then have c: "\<not> json_ws c" "c \<noteq> dq" "c \<noteq> CHR ''[''" "c \<noteq> CHR ''{''"
      "c \<noteq> CHR ''n''" "c \<noteq> CHR ''t''" "c \<noteq> CHR ''f''"
    by (auto simp: json_ws_def is_digit_def)
  then show ?thesis
    using takeWhile_stop [OF assms(2,3)] assms(1) l(1)
    by (simp add: skip_ws_id read_atom_def)
qed

definition after_value :: "string \<Rightarrow> bool" where
  "after_value rest \<longleftrightarrow> rest = [] \<or> \<not> lit_char (hd rest)"

lemma after_value_simps [simp]:
  "after_value []" "after_value (CHR '','' # t)" "after_value (CHR '']'' # t)" "after_value (CHR ''}'' # t)"
  by (simp_all add: after_value_def lit_char_def is_digit_def)

text \<open>What an escape function has to promise: the scanner stops at the quote after its text.\<close>

locale json_escape =
  fixes esc :: "string \<Rightarrow> string"
  assumes scan_esc: "scan_str (esc s @ dq # rest) = Some (sanitize s, rest)"
begin

lemma read_items_printed:
  assumes "vs \<noteq> []"
    and "\<And>v rest. v \<in> set vs \<Longrightarrow> after_value rest \<Longrightarrow> \<exists>n. read_value n (print_with esc v @ rest) = Some (clean_doc v, rest)"
  shows "\<exists>n. read_items n (join '','' (map (print_with esc) vs) @ CHR '']'' # rest) = Some (map clean_doc vs, rest)"
  using assms
proof (induction vs rule: induct_list012)
  case (2 v)
  then obtain n where "read_value n (print_with esc v @ CHR '']'' # rest) = Some (clean_doc v, CHR '']'' # rest)"
    by fastforce
  then show ?case by (intro exI [of _ "Suc n"]) (simp add: skip_ws_id json_ws_def)
next
  case (3 v w vs)
  let ?t = "join '','' (map (print_with esc) (w # vs)) @ CHR '']'' # rest"
  obtain n where n: "read_value n (print_with esc v @ CHR '','' # ?t) = Some (clean_doc v, CHR '','' # ?t)"
    using 3(4) [of v] by fastforce
  obtain m where m: "read_items m ?t = Some (map clean_doc (w # vs), rest)" using 3(2) 3(4) by auto
  show ?case
    using read_value_le [OF _ n, of "max n m"] read_items_le [OF _ m, of "max n m"]
    by (intro exI [of _ "Suc (max n m)"]) (simp add: skip_ws_id json_ws_def)
qed simp

lemma read_members_printed:
  assumes "ms \<noteq> []"
    and "\<And>m rest. m \<in> set ms \<Longrightarrow> after_value rest \<Longrightarrow>
        \<exists>n. read_value n (print_with esc (snd m) @ rest) = Some (clean_doc (snd m), rest)"
  shows "\<exists>n. read_members n (join '','' (map (doc_member esc) ms) @ CHR ''}'' # rest)
    = Some (map (\<lambda>m. (sanitize (fst m), clean_doc (snd m))) ms, rest)"
  using assms
proof (induction ms rule: induct_list012)
  case (2 m)
  then obtain n where n: "read_value n (print_with esc (snd m) @ CHR ''}'' # rest) = Some (clean_doc (snd m), CHR ''}'' # rest)"
    by fastforce
  have "read_key (doc_member esc m @ CHR ''}'' # rest) = Some (sanitize (fst m), print_with esc (snd m) @ CHR ''}'' # rest)"
    by (simp add: read_key_def skip_ws_id json_ws_def scan_esc)
  with n show ?case by (intro exI [of _ "Suc n"]) (simp add: skip_ws_id json_ws_def)
next
  case (3 m m' ms)
  let ?t = "join '','' (map (doc_member esc) (m' # ms)) @ CHR ''}'' # rest"
  obtain n where n: "read_value n (print_with esc (snd m) @ CHR '','' # ?t) = Some (clean_doc (snd m), CHR '','' # ?t)"
    using 3(4) [of m] by fastforce
  obtain k where k: "read_members k ?t = Some (map (\<lambda>m. (sanitize (fst m), clean_doc (snd m))) (m' # ms), rest)"
    using 3(2) 3(4) by auto
  have "read_key (doc_member esc m @ CHR '','' # ?t) = Some (sanitize (fst m), print_with esc (snd m) @ CHR '','' # ?t)"
    by (simp add: read_key_def skip_ws_id json_ws_def scan_esc)
  then show ?case
    using read_value_le [OF _ n, of "max n k"] read_members_le [OF _ k, of "max n k"]
    by (intro exI [of _ "Suc (max n k)"]) (simp add: skip_ws_id json_ws_def)
qed simp

lemma read_printed:
  "doc_ok v \<Longrightarrow> after_value rest \<Longrightarrow> \<exists>n. read_value n (print_with esc v @ rest) = Some (clean_doc v, rest)"
proof (induction v arbitrary: rest)
  case (JLit l)
  then show ?case
    by (intro exI [of _ "Suc 0"]) (simp only: print_with.simps clean_doc.simps read_literal after_value_def doc_ok.simps)
next
  case (JText s)
  then show ?case by (intro exI [of _ 1]) (simp add: skip_ws_id json_ws_def scan_esc)
next
  case (JList vs)
  show ?case
  proof (cases vs)
    case Nil
    then show ?thesis by (intro exI [of _ 1]) (simp add: skip_ws_id json_ws_def)
  next
    case (Cons v vs')
    let ?t = "join '','' (map (print_with esc) vs) @ CHR '']'' # rest"
    have "\<exists>n. read_items n ?t = Some (map clean_doc vs, rest)"
      by (rule read_items_printed) (use JList Cons in \<open>auto simp: list_all_iff\<close>)
    then obtain n where n: "read_items n ?t = Some (map clean_doc vs, rest)" by blast
    obtain c t where "print_with esc v = c # t" "\<not> json_ws c" "c \<noteq> CHR '']''"
      using doc_head [of v esc] JList.prems Cons by auto
    then have "\<exists>u. skip_ws ?t = c # u" using Cons by (cases vs') (auto simp: skip_ws_id)
    with n \<open>c \<noteq> CHR '']''\<close> show ?thesis
      by (intro exI [of _ "Suc n"]) (auto simp: skip_ws_id json_ws_def)
  qed
next
  case (JObj ms)
  show ?case
  proof (cases ms)
    case Nil
    then show ?thesis by (intro exI [of _ 1]) (simp add: skip_ws_id json_ws_def)
  next
    case (Cons m ms')
    let ?t = "join '','' (map (doc_member esc) ms) @ CHR ''}'' # rest"
    have IH: "\<exists>n. read_value n (print_with esc (snd m) @ rest) = Some (clean_doc (snd m), rest)"
      if "m \<in> set ms" "after_value rest" for m rest
      using JObj.IH [OF that(1), of "snd m"] JObj.prems(1) that
      by (cases m) (auto simp: list_all_iff)
    have "\<exists>n. read_members n ?t = Some (map (\<lambda>m. (sanitize (fst m), clean_doc (snd m))) ms, rest)"
      by (rule read_members_printed) (use IH Cons in auto)
    then obtain n where n: "read_members n ?t = Some (map (\<lambda>m. (sanitize (fst m), clean_doc (snd m))) ms, rest)"
      by blast
    have "\<exists>u. skip_ws ?t = dq # u" using Cons by (cases ms') (auto simp: skip_ws_id json_ws_def)
    with n show ?thesis
      by (intro exI [of _ "Suc n"]) (auto simp: skip_ws_id json_ws_def)
  qed
qed (intro exI [of _ 1]; simp add: skip_ws_id json_ws_def read_atom_def)+

lemma print_decodes: "doc_ok v \<Longrightarrow> decode_all (print_with esc v) = Some (clean_doc v)"
  using read_printed [of v "[]"] read_value_fuel
  by (fastforce simp: decode_all_def skip_ws_def)

lemma print_decodes_first:
  "doc_ok v \<Longrightarrow> after_value rest \<Longrightarrow> decode_first (print_with esc v @ rest) = Some (clean_doc v)"
  using read_printed [of v rest] read_value_fuel by (fastforce simp: decode_first_def)

end

interpretation jesc_print: json_escape jesc
  by unfold_locales (rule scan_str_jesc)

lemmas decode_printed = jesc_print.print_decodes and decode_first_printed = jesc_print.print_decodes_first

subsection \<open>Marshal\<close>

text \<open>
  The string encoder of \<^verbatim>\<open>encoding/json\<close>: short escapes, control characters and the characters
  unsafe in HTML or JavaScript as \<^verbatim>\<open>\\u00xx\<close>, an invalid byte as \<^verbatim>\<open>\\ufffd\<close>.
\<close>

definition marshal_rune :: "nat \<Rightarrow> string" where
  "marshal_rune r =
     (if r = 34 then [bsl, dq]
      else if r = 92 then [bsl, bsl]
      else if r = 8 then [bsl, CHR ''b'']
      else if r = 12 then [bsl, CHR ''f'']
      else if r = 10 then [bsl, CHR ''n'']
      else if r = 13 then [bsl, CHR ''r'']
      else if r = 9 then [bsl, CHR ''t'']
      else if r < 0x20 \<or> r \<in> {60, 62, 38, 0x2028, 0x2029} then [bsl, CHR ''u''] @ hex4 r
      else encode_rune r)"

lemma decode_rune_shorter: "s \<noteq> [] \<Longrightarrow> (r, w) = decode_rune s \<Longrightarrow> length s - w < length s"
  using decode_rune_width [of s] by (cases "decode_rune s") auto

function marshal_str :: "string \<Rightarrow> string" where
  "marshal_str s =
     (if s = [] then []
      else (case decode_rune s of
          (r, w) \<Rightarrow> (if r = rune_error \<and> w = 1 then [bsl, CHR ''u''] @ hex4 rune_error else marshal_rune r)
                    @ marshal_str (drop w s)))"
  by pat_completeness auto
termination
  by (relation "measure length") (auto dest: decode_rune_shorter)

declare marshal_str.simps [simp del]

lemma jstep_hex4: "r < 0xD800 \<or> (0xDFFF < r \<and> r < 0x10000) \<Longrightarrow> jstep ([bsl, CHR ''u''] @ hex4 r @ t) = JRune r t"
proof -
  assume r: "r < 0xD800 \<or> (0xDFFF < r \<and> r < 0x10000)"
  then have "r div 4096 mod 16 = r div 4096" by auto
  moreover have "4096 * (r div 4096) + 256 * (r div 256 mod 16) + 16 * (r div 16 mod 16) + r mod 16 = r"
  proof -
    have "16 * (r div 16) + r mod 16 = r" by simp
    moreover have "16 * (r div 256) + r div 16 mod 16 = r div 16"
      using mult_div_mod_eq [of 16 "r div 16"] by (simp flip: div_mult2_eq)
    moreover have "16 * (r div 4096) + r div 256 mod 16 = r div 256"
      using mult_div_mod_eq [of 16 "r div 256"] by (simp flip: div_mult2_eq)
    ultimately show ?thesis by linarith
  qed
  ultimately show ?thesis using r by (auto simp: jstep_def hex4_def get_u4_def join_surrogates_def)
qed

lemma jstep_marshal_rune:
  assumes "valid_rune r"
  shows "jstep (marshal_rune r @ t) = JRune r t"
proof -
  consider "r = 34" | "r = 92" | "r = 8" | "r = 12" | "r = 10" | "r = 13" | "r = 9"
    | "r < 0x20 \<or> r \<in> {60, 62, 38, 0x2028, 0x2029}" "r \<notin> {8, 9, 10, 12, 13}"
    | "0x20 \<le> r" "r \<notin> {34, 92, 60, 62, 38, 0x2028, 0x2029}"
    by fastforce
  then show ?thesis
  proof cases
    case 8
    then have "marshal_rune r = [bsl, CHR ''u''] @ hex4 r" by (auto simp: marshal_rune_def)
    moreover have "r < 0xD800" using 8(1) by auto
    ultimately show ?thesis using jstep_hex4 [of r t] by simp
  next
    case 9
    then obtain c u where c: "encode_rune r = c # u" "byte c \<ge> 0x20" "byte c \<noteq> 34" "byte c \<noteq> 92"
      using encode_rune_head by (metis insertCI)
    then have "c \<noteq> dq" "c \<noteq> bsl" by auto
    moreover have "decode_rune (encode_rune r @ t) = (r, length (encode_rune r))"
      using assms by (rule decode_encode)
    moreover have "marshal_rune r = encode_rune r" using 9 by (auto simp: marshal_rune_def)
    ultimately show ?thesis using c by (simp add: jstep_def)
  qed (simp_all add: marshal_rune_def jstep_def escape_rune_def)
qed

lemma scan_str_step: "jstep (a @ t) = JRune r t \<Longrightarrow>
    scan_str (a @ t) = map_option (\<lambda>(x, rest). (encode_rune r @ x, rest)) (scan_str t)"
  by (subst scan_str.simps) simp

lemma scan_str_marshal: "scan_str (marshal_str s @ dq # rest) = Some (sanitize s, rest)"
proof (induction s rule: marshal_str.induct)
  case (1 s)
  show ?case
  proof (cases "s = []")
    case True
    then show ?thesis by (simp add: marshal_str.simps sanitize_def)
  next
    case False
    obtain r w where d: "decode_rune s = (r, w)" by (cases "decode_rune s")
    let ?a = "if r = rune_error \<and> w = 1 then [bsl, CHR ''u''] @ hex4 rune_error else marshal_rune r"
    let ?t = "marshal_str (drop w s) @ dq # rest"
    have "valid_rune r" using decode_rune_valid [of s] by (simp add: d)
    then have "jstep (?a @ ?t) = JRune r ?t"
      using jstep_marshal_rune [of r ?t] jstep_hex4 [of rune_error ?t] by auto
    from scan_str_step [OF this] have "scan_str (?a @ ?t) = Some (encode_rune r @ sanitize (drop w s), rest)"
      using 1 [OF False d [symmetric]] by simp
    moreover have "marshal_str s = ?a @ marshal_str (drop w s)"
      using False by (subst marshal_str.simps) (simp add: d)
    moreover have "sanitize s = encode_rune r @ sanitize (drop w s)"
      using False by (simp add: sanitize_def runes.simps [of s] d)
    ultimately show ?thesis by simp
  qed
qed

interpretation marshal_print: json_escape marshal_str
  by unfold_locales (rule scan_str_marshal)

lemmas decode_marshalled = marshal_print.print_decodes

abbreviation marshal :: "json \<Rightarrow> string" where
  "marshal \<equiv> print_with marshal_str"

subsection \<open>Integers\<close>

lemma show_nat_lead: "0 < n \<Longrightarrow> hd (show_nat n) \<noteq> CHR ''0''"
proof (induction n rule: show_nat.induct)
  case (1 n)
  show ?case
  proof (cases "n < 10")
    case True
    have "digit_char n \<noteq> CHR ''0''"
      using 1(2) True digit_char_props(2) [of n] by (auto simp: digit_val_def)
    with True show ?thesis by (simp add: show_nat.simps [of n])
  qed (use 1 in \<open>simp add: show_nat.simps [of n]\<close>)
qed

lemma int_part_show_nat: "int_part_ok (show_nat n)"
proof (cases "n = 0")
  case True
  have "char_of (48 :: nat) = CHR ''0''" by code_simp
  with True show ?thesis by (simp add: int_part_ok_def show_nat.simps digit_char_def)
qed (simp add: int_part_ok_def show_nat_digits show_nat_lead)

lemma number_ok_show_int: "number_ok (show_int n)"
proof -
  have all: "takeWhile is_digit (show_nat k) = show_nat k" "dropWhile is_digit (show_nat k) = []" for k
    using takeWhile_stop [OF show_nat_digits [of k], of "[]"] by simp_all
  have "\<not> is_digit CHR ''-''" by (simp add: is_digit_def)
  then have plain: "(case show_nat k of c # t \<Rightarrow> if c = CHR ''-'' then t else show_nat k | [] \<Rightarrow> show_nat k) = show_nat k" for k
    using show_nat_digits [of k] by (auto split: list.split)
  show ?thesis
    using int_part_show_nat by (simp add: number_ok_def show_int_def plain all frac_ok_def)
qed

lemma lit_char_show_int: "list_all lit_char (show_int n)"
  using show_nat_digits by (auto simp: show_int_def lit_char_def list_all_iff)

lemma doc_int_simps [simp]: "doc_ok (doc_int n)" "clean_doc (doc_int n) = doc_int n"
    "print_doc (doc_int n) = show_int n"
  by (simp_all add: doc_int_def number_ok_show_int lit_char_show_int)

end
