(* ===== verification/Reports.thy ===== *)
theory Reports
  imports Store Sql Document Config "HOL-Library.Char_ord" "HOL-Library.List_Lexorder"
begin

text \<open>
  The reports (\<^verbatim>\<open>core-go/reports.go\<close>): each builder queries the tables and prints JSON. A query
  is read as filters, groups and sorts on the rows of a \<open>table_scan\<close>: the tables in the order
  the database happens to visit them, which is all that decides between rows that compare
  equal. Which statements fail is part of the scan too, and so is the regular-expression
  engine, and what the database makes of a \<^verbatim>\<open>WHERE\<close> text that is not of the intended form.
  A builder reads the clock one or more times; \<open>clock i\<close> is its reading number \<open>i\<close>, in
  nanoseconds. Counts are unbounded here; they stay far below 64 bits.
\<close>

record table_scan =
  sc_captures :: "(int \<times> capture_record) list"
  sc_calls :: "(call_key \<times> call_row) list"
  sc_daily :: "(day_key3 \<times> int) list"
  sc_estimate :: int
  sc_runs :: "nat \<Rightarrow> bool"
  sc_regex :: "string \<Rightarrow> string \<Rightarrow> bool"
  sc_sql :: "string \<Rightarrow> int \<Rightarrow> (int \<times> capture_record) list"

definition scan_of :: "database \<Rightarrow> table_scan \<Rightarrow> bool" where
  "scan_of d sc \<longleftrightarrow>
     mset (sc_captures sc) = mset (map (\<lambda>(i, r, _). (i, r)) (db_captures d))
     \<and> distinct (map fst (sc_calls sc)) \<and> map_of (sc_calls sc) = db_calls d
     \<and> distinct (map fst (sc_daily sc)) \<and> map_of (sc_daily sc) = db_daily d"

subsection \<open>Parts of a query\<close>

text \<open>\<^verbatim>\<open>ORDER BY f DESC\<close>, \<^verbatim>\<open>GROUP BY f\<close>, \<^verbatim>\<open>count(DISTINCT f)\<close>, \<^verbatim>\<open>split_part(s, ':', 1)\<close>.\<close>

definition descending :: "('a \<Rightarrow> 'b::linorder) \<Rightarrow> 'a list \<Rightarrow> 'a list" where
  "descending f xs = rev (sort_key f (rev xs))"

definition group_by :: "('a \<Rightarrow> 'k) \<Rightarrow> 'a list \<Rightarrow> ('k \<times> 'a list) list" where
  "group_by f xs = map (\<lambda>k. (k, filter (\<lambda>x. f x = k) xs)) (remdups (map f xs))"

definition count_rows :: "('a \<Rightarrow> bool) \<Rightarrow> 'a list \<Rightarrow> int" where
  "count_rows p xs = int (length (filter p xs))"

definition count_distinct :: "('a \<Rightarrow> 'k) \<Rightarrow> 'a list \<Rightarrow> int" where
  "count_distinct f xs = int (length (remdups (map f xs)))"

definition host_part :: "string \<Rightarrow> string" where
  "host_part s = hd (split_on CHR '':'' s)"

text \<open>
  A failing statement leaves the variables of \<^verbatim>\<open>Scan\<close> at zero, which is what the aggregates
  of no rows are.
\<close>

definition rows_if :: "bool \<Rightarrow> 'a list \<Rightarrow> 'a list" where
  "rows_if ok xs = (if ok then xs else [])"

text \<open>\<^verbatim>\<open>time.Now().Add(-d).UnixMilli()\<close>; durations are 64-bit nanoseconds.\<close>

definition window_start :: "int \<Rightarrow> i64 \<Rightarrow> int" where
  "window_start now_ns minus_d = (now_ns + sint minus_d) div 1000000"

definition minutes_back :: "int \<Rightarrow> i64" where
  "minutes_back n = - word_of_int n * 60000000000"

definition hours_back :: "int \<Rightarrow> i64" where
  "hours_back n = - word_of_int n * 3600000000000"

definition now_ms :: "int \<Rightarrow> int" where
  "now_ms now_ns = now_ns div 1000000"

definition limited :: "int \<Rightarrow> int \<Rightarrow> int \<Rightarrow> int" where
  "limited most usual n = (if n \<le> 0 \<or> n > most then usual else n)"

subsection \<open>What the queries ask of a call\<close>

definition call_id_of :: "call_key \<times> call_row \<Rightarrow> string" where
  "call_id_of c = fst (fst c)"

definition agent_of :: "call_key \<times> call_row \<Rightarrow> string" where
  "agent_of c = snd (fst c)"

text \<open>\<^verbatim>\<open>answered=0 AND open=0 AND last_status >= 400\<close>.\<close>

definition call_failed :: "call_key \<times> call_row \<Rightarrow> bool" where
  "call_failed c \<longleftrightarrow> \<not> answered (snd c) \<and> \<not> is_open (snd c) \<and> last_status (snd c) \<ge> 400"

definition call_answered :: "call_key \<times> call_row \<Rightarrow> bool" where
  "call_answered c \<longleftrightarrow> answered (snd c)"

definition call_timed :: "call_key \<times> call_row \<Rightarrow> bool" where
  "call_timed c \<longleftrightarrow> answered (snd c) \<and> \<not> is_open (snd c) \<and> answer_ts (snd c) > 0
     \<and> last_ts (snd c) > answer_ts (snd c)"

definition has_invite :: "call_key \<times> call_row \<Rightarrow> bool" where
  "has_invite c \<longleftrightarrow> invite_id (snd c) > 0"

definition started_since :: "int \<Rightarrow> call_key \<times> call_row \<Rightarrow> bool" where
  "started_since ms c \<longleftrightarrow> first_ts (snd c) \<ge> ms"

text \<open>\<^verbatim>\<open>COALESCE(round(avg((last_ts_ms-answer_ts_ms)/1000.0) FILTER ...), 0)\<close>.\<close>

definition talk_ms :: "(call_key \<times> call_row) list \<Rightarrow> int" where
  "talk_ms cs = sum_list (map (\<lambda>c. last_ts (snd c) - answer_ts (snd c)) (filter call_timed cs))"

definition average_call :: "(call_key \<times> call_row) list \<Rightarrow> int" where
  "average_call cs =
     (let n = 1000 * count_rows call_timed cs
      in if n = 0 then 0 else (2 * talk_ms cs + n) div (2 * n))"

definition active_call :: "config \<Rightarrow> int \<Rightarrow> call_key \<times> call_row \<Rightarrow> bool" where
  "active_call cfg now c \<longleftrightarrow> is_open (snd c)
     \<and> ((answered (snd c) \<and> last_ts (snd c) \<ge> now - concurrent_call_max_age cfg * 1000)
        \<or> (\<not> answered (snd c) \<and> last_ts (snd c) \<ge> now - ringing_max_age cfg * 1000))"

text \<open>Shares in percent; \<open>share_capped\<close> is the form with \<^verbatim>\<open>if asr > 100 { asr = 100 }\<close>.\<close>

definition share :: "int \<Rightarrow> int \<Rightarrow> int" where
  "share part whole = (if whole > 0 then part * 100 div whole else 0)"

definition share_capped :: "int \<Rightarrow> int \<Rightarrow> int" where
  "share_capped part whole = (let s = share part whole in if s > 100 then 100 else s)"

subsection \<open>Trends\<close>

definition day_text :: "int \<Rightarrow> string" where
  "day_text bucket =
     (let d = add_days (nat bucket) \<lparr>year = 1970, month = 1, day = 1\<rparr>
      in pad_digits 4 (nat (year d)) @ ''-'' @ pad_digits 2 (nat (month d)) @ ''-'' @ pad_digits 2 (nat (day d)))"

definition number_member :: "string \<Rightarrow> int \<Rightarrow> string \<times> json" where
  "number_member k n = (k, doc_int n)"

definition text_member :: "string \<Rightarrow> string \<Rightarrow> string \<times> json" where
  "text_member k v = (k, JText v)"

definition trend_members :: "(call_key \<times> call_row) list \<Rightarrow> (string \<times> json) list" where
  "trend_members cs =
     (let ok = count_rows call_answered cs; failed = count_rows call_failed cs
      in [number_member ''total'' (int (length cs)), number_member ''answered'' ok,
          number_member ''failed'' failed, number_member ''asr'' (share_capped ok (ok + failed)),
          number_member ''acd'' (average_call cs)])"

definition buckets :: "int \<Rightarrow> (call_key \<times> call_row) list \<Rightarrow> (int \<times> (call_key \<times> call_row) list) list" where
  "buckets width cs = sort_key fst (group_by (\<lambda>c. go_div (first_ts (snd c)) width) cs)"

definition trend_doc :: "table_scan \<Rightarrow> (nat \<Rightarrow> int) \<Rightarrow> int \<Rightarrow> json" where
  "trend_doc sc clock days0 =
     (let days = limited 90 14 days0;
          cutoff = window_start (clock 0) (retention_duration days);
          cs = rows_if (sc_runs sc 0) (filter (started_since cutoff) (sc_calls sc))
      in JList (map (\<lambda>(b, g). JObj (text_member ''day'' (day_text b) # trend_members g)) (buckets 86400000 cs)))"

definition hourly_doc :: "table_scan \<Rightarrow> (nat \<Rightarrow> int) \<Rightarrow> int \<Rightarrow> json" where
  "hourly_doc sc clock hours0 =
     (let hours = limited 168 24 hours0;
          cutoff = window_start (clock 0) (hours_back hours);
          cs = rows_if (sc_runs sc 0) (filter (started_since cutoff) (sc_calls sc))
      in JList (map (\<lambda>(b, g). JObj (number_member ''ts'' (b * 3600000) # trend_members g)) (buckets 3600000 cs)))"

definition cps_doc :: "table_scan \<Rightarrow> (nat \<Rightarrow> int) \<Rightarrow> int \<Rightarrow> json" where
  "cps_doc sc clock minutes0 =
     (let minutes = limited 1440 60 minutes0;
          cutoff = window_start (clock 0) (minutes_back minutes);
          cs = rows_if (sc_runs sc 0) (filter (started_since cutoff) (sc_calls sc))
      in JList (map (\<lambda>(b, g). JObj [number_member ''minute'' b, number_member ''total'' (int (length g)),
              number_member ''invites'' (count_rows has_invite g)]) (buckets 60000 cs)))"

subsection \<open>One number's calls\<close>

definition call_phase :: "call_row \<Rightarrow> string" where
  "call_phase c =
     (if \<not> is_open c \<and> answered c then ''completed''
      else if \<not> is_open c then ''failed''
      else if answered c then ''in_progress''
      else ''ringing'')"

definition number_call :: "call_key \<times> call_row \<Rightarrow> json" where
  "number_call c = JObj
     [text_member ''call_id'' (call_id_of c), text_member ''agent'' (agent_of c),
      number_member ''first_ts_ms'' (first_ts (snd c)), number_member ''last_ts_ms'' (last_ts (snd c)),
      text_member ''state'' (call_phase (snd c)), number_member ''status'' (last_status (snd c)),
      text_member ''src'' (row_src (snd c)), text_member ''dst'' (row_dst (snd c)),
      text_member ''from'' (row_from (snd c)), text_member ''to'' (row_to (snd c))]"

definition call_seconds :: "(call_key \<times> call_row) list \<Rightarrow> int list" where
  "call_seconds cs = map (\<lambda>c. (last_ts (snd c) - answer_ts (snd c)) div 1000)
     (filter (\<lambda>c. answered (snd c) \<and> answer_ts (snd c) > 0 \<and> last_ts (snd c) > answer_ts (snd c)) cs)"

definition number_doc :: "table_scan \<Rightarrow> (nat \<Rightarrow> int) \<Rightarrow> string \<Rightarrow> json" where
  "number_doc sc clock num =
     (if \<not> sc_runs sc 0 then
        JObj [text_member ''number'' num, (''calls'', JList []), number_member ''total'' 0]
      else
        (let cutoff = window_start (clock 0) (minutes_back 60);
             cs = take 50 (descending (\<lambda>c. first_ts (snd c))
                    (filter (\<lambda>c. started_since cutoff c
                       \<and> (has_part (row_from (snd c)) num \<or> has_part (row_to (snd c)) num)) (sc_calls sc)));
             ok = count_rows call_answered cs; failed = count_rows call_failed cs;
             ds = call_seconds cs
         in JObj [text_member ''number'' num, number_member ''total'' (int (length cs)),
              number_member ''answered'' ok, number_member ''failed'' failed,
              number_member ''asr'' (share ok (ok + failed)),
              number_member ''acd'' (if ds \<noteq> [] then sum_list ds div int (length ds) else 0),
              (''calls'', JList (map number_call cs))]))"

subsection \<open>Realtime\<close>

definition heard_since :: "int \<Rightarrow> int \<times> capture_record \<Rightarrow> bool" where
  "heard_since ms m \<longleftrightarrow> cr_ts_ms (snd m) \<ge> ms"

definition method_has :: "string \<Rightarrow> int \<times> capture_record \<Rightarrow> bool" where
  "method_has v m \<longleftrightarrow> has_part (cr_method (snd m)) v"

definition status_in :: "int \<Rightarrow> int \<Rightarrow> int \<times> capture_record \<Rightarrow> bool" where
  "status_in lo hi m \<longleftrightarrow> lo \<le> cr_status (snd m) \<and> cr_status (snd m) < hi"

definition status_from :: "int \<Rightarrow> int \<times> capture_record \<Rightarrow> bool" where
  "status_from lo m \<longleftrightarrow> lo \<le> cr_status (snd m)"

definition invite_request :: "int \<times> capture_record \<Rightarrow> bool" where
  "invite_request m \<longleftrightarrow> cr_method (snd m) = ''INVITE'' \<and> cr_kind (snd m) = ''request''"

definition for_agent :: "string \<Rightarrow> string \<Rightarrow> bool" where
  "for_agent f agent \<longleftrightarrow> (if f \<noteq> [] then agent = f else True)"

record traffic =
  tr_ok :: int
  tr_client :: int
  tr_server :: int

definition error_rate :: "traffic \<Rightarrow> int" where
  "error_rate t = share (tr_client t + tr_server t) (tr_ok t + tr_client t + tr_server t)"

definition traffic_of :: "(int \<times> capture_record) list \<Rightarrow> traffic" where
  "traffic_of ms = \<lparr>tr_ok = count_rows (status_in 200 300) ms, tr_client = count_rows (status_in 400 500) ms,
                    tr_server = count_rows (status_from 500) ms\<rparr>"

definition message_counts :: "(int \<times> capture_record) list \<Rightarrow> (string \<times> json) list" where
  "message_counts ms =
     [number_member ''total'' (int (length ms)), number_member ''invites'' (count_rows invite_request ms),
      number_member ''invite_messages'' (count_rows (method_has ''INVITE'') ms),
      number_member ''byes'' (count_rows (method_has ''BYE'') ms),
      number_member ''registers'' (count_rows (method_has ''REGISTER'') ms),
      number_member ''options'' (count_rows (method_has ''OPTIONS'') ms),
      number_member ''resp_2xx'' (tr_ok (traffic_of ms)), number_member ''resp_4xx'' (tr_client (traffic_of ms)),
      number_member ''resp_5xx'' (tr_server (traffic_of ms)),
      number_member ''err_401'' (count_rows (status_in 401 402) ms), number_member ''err_403'' (count_rows (status_in 403 404) ms),
      number_member ''err_404'' (count_rows (status_in 404 405) ms), number_member ''err_486'' (count_rows (status_in 486 487) ms),
      number_member ''err_503'' (count_rows (status_in 503 504) ms)]"

definition realtime_doc :: "table_scan \<Rightarrow> (nat \<Rightarrow> int) \<Rightarrow> config \<Rightarrow> int \<Rightarrow> string \<Rightarrow> json" where
  "realtime_doc sc clock cfg window agent =
     (let cutoff = window_start (clock 0) (minutes_back window);
          ms = filter (\<lambda>m. heard_since cutoff m \<and> for_agent agent (cr_agent (snd m))) (sc_captures sc);
          cs = filter (\<lambda>c. for_agent agent (agent_of c)) (sc_calls sc);
          ms0 = rows_if (sc_runs sc 0) ms;
          active = count_rows (active_call cfg (now_ms (clock 1))) (rows_if (sc_runs sc 1) cs);
          dialogs = count_rows (\<lambda>c. is_open (snd c)) (rows_if (sc_runs sc 2) cs);
          stale = (if dialogs - active < 0 then 0 else dialogs - active);
          agents = count_distinct (\<lambda>m. cr_agent (snd m)) (rows_if (sc_runs sc 3) ms);
          sources = count_distinct (\<lambda>m. cr_src (snd m)) (rows_if (sc_runs sc 4) (filter invite_request ms));
          cs5 = rows_if (sc_runs sc 5) (filter (started_since cutoff) cs);
          ok = count_rows call_answered cs5; failed = count_rows call_failed cs5; all_calls = ok + failed
      in JObj ([number_member ''window_min'' window, text_member ''agent'' agent] @ message_counts ms0 @
           [number_member ''active_calls'' active, number_member ''concurrent_calls'' active,
            number_member ''open_dialogs'' dialogs, number_member ''stale_open_dialogs'' stale,
            number_member ''active_cutoff_sec'' (concurrent_call_max_age cfg),
            number_member ''ringing_cutoff_sec'' (ringing_max_age cfg),
            number_member ''agents_active'' agents, number_member ''sources'' sources,
            number_member ''answered_calls'' ok, number_member ''failed_calls'' failed,
            number_member ''edge_rejects'' 0, number_member ''acd_seconds'' (average_call cs5),
            number_member ''acd_calls'' (count_rows call_timed cs5), number_member ''asr'' (share ok all_calls),
            number_member ''ner'' (share (all_calls - failed) all_calls),
            number_member ''err_rate'' (error_rate (traffic_of ms0))]))"

subsection \<open>Nodes\<close>

datatype light = Green | Yellow | Red

definition node_light :: "int \<Rightarrow> light" where
  "node_light age = (if age > 300 then Red else if age > 60 then Yellow else Green)"

definition light_text :: "light \<Rightarrow> string" where
  "light_text l = (case l of Green \<Rightarrow> ''green'' | Yellow \<Rightarrow> ''yellow'' | Red \<Rightarrow> ''red'')"

record node =
  nd_agent :: string
  nd_total :: int
  nd_last_seen :: int
  nd_age :: int
  nd_calls :: int
  nd_active :: int
  nd_errors :: int
  nd_light :: light

definition node_json :: "node \<Rightarrow> json" where
  "node_json n = JObj
     [text_member ''agent'' (nd_agent n), number_member ''total'' (nd_total n), number_member ''recent'' (nd_total n),
      number_member ''last_seen'' (nd_last_seen n), number_member ''age_sec'' (nd_age n),
      number_member ''calls'' (nd_calls n), number_member ''active_calls'' (nd_active n),
      number_member ''errors'' (nd_errors n), text_member ''status'' (light_text (nd_light n))]"

definition make_node :: "table_scan \<Rightarrow> (nat \<Rightarrow> int) \<Rightarrow> config \<Rightarrow> nat \<Rightarrow> string \<times> (int \<times> capture_record) list \<Rightarrow> node" where
  "make_node sc clock cfg i g =
     (let ms = snd g;
          seen = Max (set (map (\<lambda>m. cr_ts_ms (snd m)) ms));
          age = go_div (now_ms (clock 1) - seen) 1000;
          active = count_rows (\<lambda>c. active_call cfg (now_ms (clock (2 + i))) c \<and> agent_of c = fst g)
                     (rows_if (sc_runs sc (1 + i)) (sc_calls sc))
      in \<lparr>nd_agent = fst g, nd_total = int (length ms), nd_last_seen = seen, nd_age = age,
          nd_calls = count_distinct (\<lambda>m. cr_call_id (snd m)) ms, nd_active = active,
          nd_errors = count_rows (status_from 400) ms, nd_light = node_light age\<rparr>)"

definition nodes :: "table_scan \<Rightarrow> (nat \<Rightarrow> int) \<Rightarrow> config \<Rightarrow> node list" where
  "nodes sc clock cfg =
     (let cutoff = window_start (clock 0) (minutes_back 5);
          ms = rows_if (sc_runs sc 0) (filter (heard_since cutoff) (sc_captures sc));
          gs = descending (\<lambda>g. int (length (snd g))) (group_by (\<lambda>m. cr_agent (snd m)) ms)
      in map (\<lambda>(i, g). make_node sc clock cfg i g) (zip [0..<length gs] gs))"

definition nodes_doc :: "table_scan \<Rightarrow> (nat \<Rightarrow> int) \<Rightarrow> config \<Rightarrow> json" where
  "nodes_doc sc clock cfg = JList (map node_json (nodes sc clock cfg))"

subsection \<open>Calls\<close>

text \<open>The clause of \<^verbatim>\<open>buildActiveCallsJSON\<close> on a row, filter by filter.\<close>

definition in_state :: "string \<Rightarrow> call_row \<Rightarrow> bool" where
  "in_state state c \<longleftrightarrow>
     (if state \<in> {''open'', ''ringing''} then is_open c \<and> \<not> answered c
      else if state \<in> {''answered'', ''active''} then is_open c \<and> answered c
      else if state = ''ended'' then \<not> is_open c
      else if state = ''failed'' then \<not> is_open c \<and> \<not> answered c \<and> last_status c \<ge> 400
      else if state = ''canceled'' then \<not> is_open c \<and> has_part (last_method c) ''CANCEL''
      else True)"

definition holds_part :: "string \<Rightarrow> string \<Rightarrow> bool" where
  "holds_part v s \<longleftrightarrow> (if v \<noteq> [] then has_part s v else True)"

definition call_matches :: "call_filter \<Rightarrow> call_key \<times> call_row \<Rightarrow> bool" where
  "call_matches f c \<longleftrightarrow> for_agent (cf_agent f) (agent_of c)
     \<and> holds_part (cf_src f) (row_src (snd c)) \<and> holds_part (cf_dst f) (row_dst (snd c))
     \<and> holds_part (cf_from f) (row_from (snd c)) \<and> holds_part (cf_to f) (row_to (snd c))"

definition shown_state :: "call_row \<Rightarrow> string" where
  "shown_state c =
     (if is_open c \<and> answered c then ''answered''
      else if is_open c then ''ringing''
      else if \<not> answered c \<and> last_status c \<ge> 400 then ''failed''
      else ''ended'')"

definition bit :: "bool \<Rightarrow> int" where
  "bit b = (if b then 1 else 0)"

definition estimated_messages :: "call_row \<Rightarrow> int" where
  "estimated_messages c = (let n = last_id c - invite_id c in if n < 1 then 1 else n)"

definition active_json :: "call_key \<times> call_row \<Rightarrow> json" where
  "active_json kc =
     (let c = snd kc; n = estimated_messages c; req = n div 2 in JObj
        [number_member ''id'' (last_id c), text_member ''call_id'' (call_id_of kc), number_member ''ts_ms'' (last_ts c),
         number_member ''ts_first'' (first_ts c), number_member ''ts_last'' (last_ts c),
         text_member ''src'' (row_src c), text_member ''dst'' (row_dst c), text_member ''from'' (row_from c),
         text_member ''to'' (row_to c), text_member ''from_h'' (row_from c), text_member ''to_h'' (row_to c),
         text_member ''agent'' (agent_of kc), text_member ''transport'' ''HEP3'', text_member ''method'' ''INVITE'',
         number_member ''status'' (last_status c), text_member ''kind'' ''request'',
         text_member ''state'' (shown_state c), number_member ''messages'' n, number_member ''requests'' req,
         number_member ''responses'' (n - req), number_member ''answered'' (bit (answered c)),
         number_member ''open'' (bit (is_open c)), number_member ''last_status'' (last_status c),
         number_member ''first_ts_ms'' (first_ts c)])"

definition active_calls :: "table_scan \<Rightarrow> int \<Rightarrow> call_filter \<Rightarrow> (call_key \<times> call_row) list" where
  "active_calls sc limit f = take (nat (limited 500 50 limit))
     (descending (\<lambda>c. last_ts (snd c))
        (rows_if (sc_runs sc 0)
           (filter (\<lambda>c. call_matches f c \<and> in_state (cf_state f) (snd c)) (sc_calls sc))))"

definition active_doc :: "table_scan \<Rightarrow> int \<Rightarrow> call_filter \<Rightarrow> json" where
  "active_doc sc limit f = JList (map active_json (active_calls sc limit f))"

definition top_json :: "call_key \<times> call_row \<Rightarrow> json" where
  "top_json kc =
     (let c = snd kc in JObj
        [text_member ''call_id'' (call_id_of kc), number_member ''messages'' (max (last_id c - invite_id c) 1),
         number_member ''ts_first'' (first_ts c), number_member ''ts_last'' (last_ts c),
         text_member ''state'' (if is_open c then ''active'' else ''ended''),
         text_member ''from'' (row_from c), text_member ''to'' (row_to c)])"

definition top_calls :: "table_scan \<Rightarrow> int \<Rightarrow> call_filter \<Rightarrow> (call_key \<times> call_row) list" where
  "top_calls sc limit f = take (nat (limited 100 20 limit))
     (descending (\<lambda>c. last_id (snd c) - invite_id (snd c))
        (rows_if (sc_runs sc 0) (filter (\<lambda>c. call_matches f c \<and> has_invite c) (sc_calls sc))))"

definition top_doc :: "table_scan \<Rightarrow> int \<Rightarrow> call_filter \<Rightarrow> json" where
  "top_doc sc limit f = JList (map top_json (top_calls sc limit f))"

subsection \<open>Talkers, agents, methods, days\<close>

definition latest_captures :: "table_scan \<Rightarrow> (int \<times> capture_record) list" where
  "latest_captures sc = take 50000 (descending fst (sc_captures sc))"

text \<open>A negative \<^verbatim>\<open>LIMIT\<close> is an error of the statement.\<close>

definition talkers_doc :: "table_scan \<Rightarrow> int \<Rightarrow> json" where
  "talkers_doc sc limit =
     (let ms = rows_if (sc_runs sc 0 \<and> limit \<ge> 0) (latest_captures sc);
          gs = take (nat limit) (descending (\<lambda>g. int (length (snd g))) (group_by (\<lambda>m. cr_src (snd m)) ms))
      in JList (map (\<lambda>(src, g). JObj
           [text_member ''src'' src, number_member ''messages'' (int (length g)),
            number_member ''calls'' (count_distinct (\<lambda>m. cr_call_id (snd m)) g),
            text_member ''source'' ''recent'']) gs))"

definition agents_doc :: "table_scan \<Rightarrow> json" where
  "agents_doc sc =
     (let gs = descending (\<lambda>g. int (length (snd g)))
                 (group_by (\<lambda>m. cr_agent (snd m)) (rows_if (sc_runs sc 0) (latest_captures sc)))
      in JList (map (\<lambda>(agent, g). JObj
           [text_member ''agent'' agent, number_member ''messages'' (int (length g)),
            number_member ''calls'' (count_distinct (\<lambda>m. cr_call_id (snd m)) g),
            number_member ''first_seen'' (Min (set (map (\<lambda>m. cr_ts_ms (snd m)) g))),
            number_member ''last_seen'' (Max (set (map (\<lambda>m. cr_ts_ms (snd m)) g))),
            text_member ''source'' ''recent'']) gs))"

definition daily_total :: "(day_key3 \<times> int) list \<Rightarrow> int" where
  "daily_total ds = sum_list (map snd ds)"

definition summary_doc :: "table_scan \<Rightarrow> json" where
  "summary_doc sc =
     (let total = daily_total (rows_if (sc_runs sc 0) (sc_daily sc));
          cs = rows_if (sc_runs sc 1) (sc_calls sc);
          ts_min = (if cs = [] then 0 else Min (set (map (\<lambda>c. first_ts (snd c)) cs)));
          ts_max = (if cs = [] then 0 else Max (set (map (\<lambda>c. last_ts (snd c)) cs)));
          gs = take 30 (descending (\<lambda>g. daily_total (snd g))
                 (group_by (\<lambda>d. fst (snd (fst d))) (rows_if (sc_runs sc 3) (sc_daily sc))))
      in JObj [number_member ''total'' total,
           number_member ''unique_call_ids'' (if sc_runs sc 2 then sc_estimate sc else 0),
           number_member ''hep'' total, number_member ''sip_udp'' 0,
           number_member ''ts_min'' ts_min, number_member ''ts_max'' ts_max,
           (''methods'', JObj (map (\<lambda>(method, g). number_member method (daily_total g)) gs))])"

definition daily_doc :: "table_scan \<Rightarrow> int \<Rightarrow> json" where
  "daily_doc sc limit = JList (map (\<lambda>((day, method, transport), n). JObj
       [text_member ''day'' day, text_member ''method'' method, text_member ''transport'' transport,
        number_member ''count'' n])
     (take (nat (limited 100 14 limit * 30))
        (descending (\<lambda>d. fst (fst d)) (descending snd (rows_if (sc_runs sc 0) (sc_daily sc))))))"

subsection \<open>Service levels\<close>

definition sla_row :: "string \<Rightarrow> string \<times> (call_key \<times> call_row) list \<Rightarrow> (string \<times> json) list" where
  "sla_row name g =
     [text_member name (fst g), number_member ''invites'' (count_rows has_invite (snd g)),
      number_member ''ok_2xx'' (count_rows call_answered (snd g)), number_member ''errors'' (count_rows call_failed (snd g))]"

definition sla_agents_doc :: "table_scan \<Rightarrow> (nat \<Rightarrow> int) \<Rightarrow> config \<Rightarrow> json" where
  "sla_agents_doc sc clock cfg =
     (let cutoff = window_start (clock 0) (minutes_back (kpi_window_min cfg));
          cs = rows_if (sc_runs sc 0) (filter (started_since cutoff) (sc_calls sc));
          gs = descending (\<lambda>g. count_rows has_invite (snd g)) (group_by agent_of cs)
      in JList (map (\<lambda>g. JObj (sla_row ''agent'' g @
           [number_member ''asr'' (share (count_rows call_answered (snd g)) (count_rows has_invite (snd g))),
            number_member ''err_rate'' (share (count_rows call_failed (snd g)) (count_rows has_invite (snd g)))])) gs))"

definition sla_peers :: "table_scan \<Rightarrow> (nat \<Rightarrow> int) \<Rightarrow> (call_row \<Rightarrow> string) \<Rightarrow> (string \<times> (call_key \<times> call_row) list) list" where
  "sla_peers sc clock side =
     (let cutoff = window_start (clock 0) (minutes_back 5);
          cs = rows_if (sc_runs sc 0) (filter (started_since cutoff) (sc_calls sc))
      in take 50 (descending (\<lambda>g. count_rows has_invite (snd g))
           (filter (\<lambda>g. count_rows has_invite (snd g) > 0) (group_by (\<lambda>c. host_part (side (snd c))) cs))))"

definition sla_quality :: "(call_key \<times> call_row) list \<Rightarrow> (string \<times> json) list" where
  "sla_quality cs =
     [number_member ''asr'' (share_capped (count_rows call_answered cs) (count_rows has_invite cs)),
      number_member ''acd'' (average_call cs)]"

definition sla_dest_doc :: "table_scan \<Rightarrow> (nat \<Rightarrow> int) \<Rightarrow> json" where
  "sla_dest_doc sc clock =
     JList (map (\<lambda>g. JObj (sla_row ''dst'' g @ sla_quality (snd g))) (sla_peers sc clock row_dst))"

definition sla_src_doc :: "table_scan \<Rightarrow> (nat \<Rightarrow> int) \<Rightarrow> json" where
  "sla_src_doc sc clock =
     JList (map (\<lambda>g. JObj (sla_row ''src'' g @ sla_quality (snd g))) (sla_peers sc clock row_src))"

definition carrier_calls :: "string \<Rightarrow> int \<Rightarrow> table_scan \<Rightarrow> (call_key \<times> call_row) list" where
  "carrier_calls ip cutoff sc = filter (\<lambda>c. started_since cutoff c
     \<and> (host_part (row_dst (snd c)) = ip \<or> host_part (row_src (snd c)) = ip)) (sc_calls sc)"

definition carrier_doc :: "table_scan \<Rightarrow> (nat \<Rightarrow> int) \<Rightarrow> string \<Rightarrow> json" where
  "carrier_doc sc clock ip =
     (if ip = [] then JObj [text_member ''error'' ''ip required'']
      else
        (let cutoff = window_start (clock 0) (minutes_back 60);
             cs = carrier_calls ip cutoff sc;
             cs0 = rows_if (sc_runs sc 0) cs;
             codes = take 10 (descending (\<lambda>g. int (length (snd g)))
                       (group_by (\<lambda>c. last_status (snd c)) (rows_if (sc_runs sc 1) (filter call_failed cs))))
         in JObj (sla_row ''ip'' (ip, cs0) @ sla_quality cs0 @
              [(''error_codes'', JObj (map (\<lambda>(code, g). number_member (show_int code) (int (length g))) codes)),
               (''trend'', JList (map (\<lambda>(b, g). JObj [number_member ''m'' b, number_member ''inv'' (count_rows has_invite g),
                    number_member ''ans'' (count_rows call_answered g)]) (buckets 60000 (rows_if (sc_runs sc 2) cs))))])))"

subsection \<open>Messages\<close>

definition all_digits :: "string \<Rightarrow> bool" where
  "all_digits v \<longleftrightarrow> list_all is_digit v"

definition numeric_filter :: "message_filter \<Rightarrow> bool" where
  "numeric_filter f \<longleftrightarrow> (if length (mf_status f) < 3 then True else all_digits (mf_status f))
     \<and> all_digits (mf_since f) \<and> all_digits (mf_until f)"

definition matches_id :: "table_scan \<Rightarrow> string \<Rightarrow> string \<Rightarrow> bool" where
  "matches_id sc v s \<longleftrightarrow>
     (if v = [] then True else if has_prefix v ''/'' then sc_regex sc (drop 1 v) s else s = v)"

definition matches_text :: "table_scan \<Rightarrow> string \<Rightarrow> string \<Rightarrow> bool" where
  "matches_text sc v s \<longleftrightarrow>
     (if v = [] then True else if has_prefix v ''/'' then sc_regex sc (drop 1 v) s else has_part s v)"

definition status_matches :: "string \<Rightarrow> int \<Rightarrow> bool" where
  "status_matches v n \<longleftrightarrow>
     (if v = [] then True else if length v < 3 then starts_like (show_int n) v else n = int (digits_val v))"

definition message_matches :: "table_scan \<Rightarrow> message_filter \<Rightarrow> int \<times> capture_record \<Rightarrow> bool" where
  "message_matches sc f m \<longleftrightarrow>
     (let r = snd m in matches_id sc (mf_call_id f) (cr_call_id r)
        \<and> for_agent (mf_transport f) (cr_transport r) \<and> for_agent (mf_agent f) (cr_agent r)
        \<and> for_agent (mf_method f) (cr_method r)
        \<and> (matches_text sc (mf_src f) (cr_src r) \<or> matches_text sc (mf_src f) (cr_dst r))
        \<and> matches_text sc (mf_from f) (cr_from r) \<and> matches_text sc (mf_to f) (cr_to r)
        \<and> status_matches (mf_status f) (cr_status r)
        \<and> (if mf_since f = [] then True else cr_ts_ms r \<ge> int (digits_val (mf_since f)))
        \<and> (if mf_until f = [] then True else cr_ts_ms r \<le> int (digits_val (mf_until f))))"

definition newest_first :: "(int \<times> capture_record) list \<Rightarrow> (int \<times> capture_record) list" where
  "newest_first ms = descending (\<lambda>m. cr_ts_ms (snd m)) (descending fst ms)"

text \<open>With a status or a time that is not a number the text of the clause alone decides.\<close>

definition found_messages :: "table_scan \<Rightarrow> int \<Rightarrow> message_filter \<Rightarrow> (int \<times> capture_record) list" where
  "found_messages sc limit0 f =
     (let limit = limited 5000 300 limit0 in
      rows_if (sc_runs sc 0)
        (if numeric_filter f then take (nat limit) (newest_first (filter (message_matches sc f) (sc_captures sc)))
         else sc_sql sc (messages_where f) limit))"

definition row_json :: "int \<times> capture_record \<Rightarrow> json" where
  "row_json m =
     (let r = snd m in JObj
        [number_member ''id'' (fst m), number_member ''ts_ms'' (cr_ts_ms r), text_member ''src'' (cr_src r),
         text_member ''dst'' (cr_dst r), text_member ''transport'' (cr_transport r), text_member ''proto'' (cr_proto r),
         text_member ''agent'' (cr_agent r), text_member ''kind'' (cr_kind r), text_member ''method'' (cr_method r),
         number_member ''status'' (cr_status r), text_member ''call_id'' (cr_call_id r),
         text_member ''from_h'' (cr_from r), text_member ''to_h'' (cr_to r), text_member ''cseq'' (cr_cseq r),
         text_member ''ruri'' (cr_ruri r), number_member ''hep_node_id'' (cr_hep_node_id r),
         text_member ''hep_node'' (cr_hep_node r), text_member ''hep_cid'' (cr_hep_cid r),
         number_member ''size'' (cr_size r), text_member ''raw_b64'' (cr_raw_b64 r)])"

definition messages_doc :: "table_scan \<Rightarrow> int \<Rightarrow> message_filter \<Rightarrow> json" where
  "messages_doc sc limit f = JList (map row_json (found_messages sc limit f))"

subsection \<open>Anomalies and response codes\<close>

datatype severity = Warning | Critical

record anomaly =
  an_type :: string
  an_severity :: severity
  an_count :: int
  an_message :: string

definition severity_text :: "severity \<Rightarrow> string" where
  "severity_text s = (case s of Warning \<Rightarrow> ''warning'' | Critical \<Rightarrow> ''critical'')"

definition anomaly_json :: "anomaly \<Rightarrow> json" where
  "anomaly_json a = JObj
     [text_member ''type'' (an_type a), text_member ''severity'' (severity_text (an_severity a)),
      number_member ''count'' (an_count a), text_member ''message'' (an_message a)]"

definition recent_count :: "table_scan \<Rightarrow> (nat \<Rightarrow> int) \<Rightarrow> nat \<Rightarrow> (int \<times> capture_record \<Rightarrow> bool) \<Rightarrow> int" where
  "recent_count sc clock i p =
     (let cutoff = window_start (clock 0) (minutes_back 5)
      in count_rows p (rows_if (sc_runs sc i) (filter (heard_since cutoff) (sc_captures sc))))"

definition auth_status :: "int \<times> capture_record \<Rightarrow> bool" where
  "auth_status m \<longleftrightarrow> cr_status (snd m) \<in> {401, 403}"

definition anomalies :: "table_scan \<Rightarrow> (nat \<Rightarrow> int) \<Rightarrow> anomaly list" where
  "anomalies sc clock =
     (let auth = recent_count sc clock 0 auth_status;
          errors = recent_count sc clock 1 (status_from 500);
          busy = recent_count sc clock 2 (status_in 486 487)
      in (if auth > 5 then [\<lparr>an_type = ''auth_failures'', an_severity = Warning, an_count = auth,
            an_message = ''Elevated auth failures in 5m''\<rparr>] else [])
       @ (if errors > 0 then [\<lparr>an_type = ''5xx_errors'', an_severity = Critical, an_count = errors,
            an_message = ''Server errors detected in 5m''\<rparr>] else [])
       @ (if busy > 10 then [\<lparr>an_type = ''busy_spike'', an_severity = Warning, an_count = busy,
            an_message = ''Elevated 486 Busy responses in 5m''\<rparr>] else []))"

definition anomalies_doc :: "table_scan \<Rightarrow> (nat \<Rightarrow> int) \<Rightarrow> json" where
  "anomalies_doc sc clock = JList (map anomaly_json (anomalies sc clock))"

definition sip_reason_phrase :: "int \<Rightarrow> string" where
  "sip_reason_phrase code =
     (case map_of
        [(100, ''Trying''), (180, ''Ringing''), (183, ''Session Progress''), (200, ''OK''),
         (302, ''Moved Temporarily''), (400, ''Bad Request''), (401, ''Unauthorized''), (403, ''Forbidden''),
         (404, ''Not Found''), (405, ''Method Not Allowed''), (407, ''Proxy Auth Required''),
         (408, ''Request Timeout''), (480, ''Temporarily Unavailable''), (481, ''Call Does Not Exist''),
         (486, ''Busy Here''), (487, ''Request Terminated''), (488, ''Not Acceptable Here''),
         (500, ''Server Internal Error''), (502, ''Bad Gateway''), (503, ''Service Unavailable''),
         (504, ''Server Timeout'')] code of
        Some reason \<Rightarrow> reason | None \<Rightarrow> [])"

definition codes_doc :: "table_scan \<Rightarrow> json" where
  "codes_doc sc =
     (let ms = rows_if (sc_runs sc 0) (take 50000 (descending fst (filter (status_from 1) (sc_captures sc))));
          gs = take 30 (descending (\<lambda>g. int (length (snd g))) (group_by (\<lambda>m. cr_status (snd m)) ms))
      in JList (map (\<lambda>(status, g). JObj
           [number_member ''status'' status, text_member ''reason'' (sip_reason_phrase status),
            number_member ''count'' (int (length g))]) gs))"

subsection \<open>The CSV export\<close>

text \<open>\<^verbatim>\<open>csvField\<close> on the text \<^verbatim>\<open>%v\<close> gives.\<close>

definition csv_escape :: "string \<Rightarrow> string" where
  "csv_escape s = concat (map (\<lambda>c. if c = dq then [dq, dq] else [c]) s)"

definition csv_field :: "string \<Rightarrow> string" where
  "csv_field s =
     (if list_ex (\<lambda>c. c \<in> {CHR '','', dq, CHR 0x0A}) s then dq # csv_escape s @ [dq] else s)"

subsection \<open>All reports\<close>

datatype report =
    Trend int | HourlyTrend int | NumberCalls string | RealtimeStats int string | NodeHealth
  | ActiveList int call_filter | TopTalkerList int | AgentList | Summary | TopCallList int call_filter
  | DailyList int | AgentLevels | MessageList int message_filter | AnomalyList | CodeList | Cpm int
  | DestLevels | SrcLevels | CarrierScore string

definition report_doc :: "table_scan \<Rightarrow> (nat \<Rightarrow> int) \<Rightarrow> config \<Rightarrow> report \<Rightarrow> json" where
  "report_doc sc clock cfg q =
     (case q of
        Trend days \<Rightarrow> trend_doc sc clock days
      | HourlyTrend hours \<Rightarrow> hourly_doc sc clock hours
      | NumberCalls num \<Rightarrow> number_doc sc clock num
      | RealtimeStats window agent \<Rightarrow> realtime_doc sc clock cfg window agent
      | NodeHealth \<Rightarrow> nodes_doc sc clock cfg
      | ActiveList limit f \<Rightarrow> active_doc sc limit f
      | TopTalkerList limit \<Rightarrow> talkers_doc sc limit
      | AgentList \<Rightarrow> agents_doc sc
      | Summary \<Rightarrow> summary_doc sc
      | TopCallList limit f \<Rightarrow> top_doc sc limit f
      | DailyList limit \<Rightarrow> daily_doc sc limit
      | AgentLevels \<Rightarrow> sla_agents_doc sc clock cfg
      | MessageList limit f \<Rightarrow> messages_doc sc limit f
      | AnomalyList \<Rightarrow> anomalies_doc sc clock
      | CodeList \<Rightarrow> codes_doc sc
      | Cpm minutes \<Rightarrow> cps_doc sc clock minutes
      | DestLevels \<Rightarrow> sla_dest_doc sc clock
      | SrcLevels \<Rightarrow> sla_src_doc sc clock
      | CarrierScore ip \<Rightarrow> carrier_doc sc clock ip)"

definition report_text :: "table_scan \<Rightarrow> (nat \<Rightarrow> int) \<Rightarrow> config \<Rightarrow> report \<Rightarrow> string" where
  "report_text sc clock cfg q = print_doc (report_doc sc clock cfg q)"

subsection \<open>Every report is JSON\<close>

lemma member_ok [simp]: "doc_ok (snd (number_member k n))" "doc_ok (snd (text_member k v))"
  by (simp_all add: number_member_def text_member_def)

named_theorems doc_simps "the members of the report rows"

lemmas [doc_simps] = trend_members_def number_call_def message_counts_def node_json_def active_json_def
  top_json_def sla_row_def sla_quality_def row_json_def anomaly_json_def Let_def

lemma doc_ok_list: "(\<And>x. x \<in> set xs \<Longrightarrow> doc_ok (f x)) \<Longrightarrow> doc_ok (JList (map f xs))"
  by (simp add: list_all_iff)

lemma doc_ok_parts:
  "doc_ok (number_call c)" "doc_ok (node_json n)" "doc_ok (active_json c)" "doc_ok (top_json c)"
  "doc_ok (row_json m)" "doc_ok (anomaly_json a)"
  "list_all (\<lambda>m. doc_ok (snd m)) (trend_members cs)" "list_all (\<lambda>m. doc_ok (snd m)) (sla_row k g)"
  "list_all (\<lambda>m. doc_ok (snd m)) (sla_quality cs)" "list_all (\<lambda>m. doc_ok (snd m)) (message_counts ms)"
  by (simp_all add: doc_simps)

lemma doc_ok_numbers: "list_all (\<lambda>m. doc_ok (snd m)) (map (\<lambda>(k, g). number_member (h k) (f k g)) gs)"
  by (simp add: list_all_iff split_beta)

lemma doc_ok_report: "doc_ok (report_doc sc clock cfg q)"
proof (cases q)
  case (Trend days)
  then show ?thesis by (auto simp: report_doc_def trend_doc_def Let_def doc_ok_parts list_all_iff [where P = doc_ok])
next
  case (HourlyTrend hours)
  then show ?thesis by (auto simp: report_doc_def hourly_doc_def Let_def doc_ok_parts list_all_iff [where P = doc_ok])
next
  case (NumberCalls num)
  then show ?thesis by (auto simp: report_doc_def number_doc_def Let_def doc_ok_parts list_all_iff [where P = doc_ok])
next
  case (RealtimeStats window agent)
  then show ?thesis by (simp add: report_doc_def realtime_doc_def Let_def doc_ok_parts)
next
  case NodeHealth
  then show ?thesis by (simp add: report_doc_def nodes_doc_def doc_ok_parts list_all_iff [where P = doc_ok])
next
  case (ActiveList limit f)
  then show ?thesis by (simp add: report_doc_def active_doc_def doc_ok_parts list_all_iff [where P = doc_ok])
next
  case (TopTalkerList limit)
  then show ?thesis by (auto simp: report_doc_def talkers_doc_def Let_def list_all_iff [where P = doc_ok])
next
  case AgentList
  then show ?thesis by (auto simp: report_doc_def agents_doc_def Let_def list_all_iff [where P = doc_ok])
next
  case Summary
  then show ?thesis by (simp add: report_doc_def summary_doc_def Let_def doc_ok_numbers)
next
  case (TopCallList limit f)
  then show ?thesis by (simp add: report_doc_def top_doc_def doc_ok_parts list_all_iff [where P = doc_ok])
next
  case (DailyList limit)
  then show ?thesis by (auto simp: report_doc_def daily_doc_def list_all_iff [where P = doc_ok])
next
  case AgentLevels
  then show ?thesis by (auto simp: report_doc_def sla_agents_doc_def Let_def doc_ok_parts list_all_iff [where P = doc_ok])
next
  case (MessageList limit f)
  then show ?thesis by (simp add: report_doc_def messages_doc_def doc_ok_parts list_all_iff [where P = doc_ok])
next
  case AnomalyList
  then show ?thesis by (simp add: report_doc_def anomalies_doc_def doc_ok_parts list_all_iff [where P = doc_ok])
next
  case CodeList
  then show ?thesis by (auto simp: report_doc_def codes_doc_def Let_def list_all_iff [where P = doc_ok])
next
  case (Cpm minutes)
  then show ?thesis by (auto simp: report_doc_def cps_doc_def Let_def list_all_iff [where P = doc_ok])
next
  case DestLevels
  then show ?thesis by (auto simp: report_doc_def sla_dest_doc_def Let_def doc_ok_parts list_all_iff [where P = doc_ok])
next
  case SrcLevels
  then show ?thesis by (auto simp: report_doc_def sla_src_doc_def Let_def doc_ok_parts list_all_iff [where P = doc_ok])
next
  case (CarrierScore ip)
  then show ?thesis
    by (auto simp: report_doc_def carrier_doc_def Let_def doc_ok_parts doc_ok_numbers [where h = show_int]
        list_all_iff [where P = doc_ok])
qed

lemma decode_report: "decode_all (report_text sc clock cfg q) = Some (clean_doc (report_doc sc clock cfg q))"
  by (simp add: report_text_def decode_printed doc_ok_report)

subsection \<open>Sorting and grouping\<close>

lemma set_descending [simp]: "set (descending f xs) = set xs"
  by (simp add: descending_def)

lemma mset_descending [simp]: "mset (descending f xs) = mset xs"
  by (simp add: descending_def)

lemma length_descending [simp]: "length (descending f xs) = length xs"
  by (simp add: descending_def)

lemma sorted_descending: "sorted_wrt (\<lambda>x y. f y \<le> f x) (descending f xs)"
  using sorted_sort_key [of f "rev xs"]
  by (simp add: descending_def sorted_wrt_rev sorted_map)

lemma count_le_length: "count_rows p xs \<le> int (length xs)"
  by (simp add: count_rows_def)

lemma count_nonneg [simp]: "0 \<le> count_rows p xs"
  by (simp add: count_rows_def)

lemma count_disjoint: "(\<And>x. p x \<Longrightarrow> \<not> q x) \<Longrightarrow> count_rows p xs + count_rows q xs \<le> int (length xs)"
  by (induction xs) (auto simp: count_rows_def)

lemma fst_group_by: "map fst (group_by f xs) = remdups (map f xs)"
  by (simp add: group_by_def comp_def)

lemma group_by_mem:
  "(k, g) \<in> set (group_by f xs) \<longleftrightarrow> k \<in> f ` set xs \<and> g = filter (\<lambda>x. f x = k) xs"
  by (auto simp: group_by_def)

lemma group_not_Nil: "(k, g) \<in> set (group_by f xs) \<Longrightarrow> g \<noteq> []"
  by (auto simp: group_by_mem filter_empty_conv)

lemma sum_filter_length:
  "set xs \<subseteq> set ks \<Longrightarrow> distinct ks \<Longrightarrow> (\<Sum>k \<leftarrow> ks. length (filter (\<lambda>x. x = k) xs)) = length xs"
proof (induction xs)
  case (Cons x xs)
  have "(\<Sum>k \<leftarrow> ks. length (filter (\<lambda>y. y = k) (x # xs)))
      = (\<Sum>k \<leftarrow> ks. (if x = k then 1 else 0) + length (filter (\<lambda>y. y = k) xs))"
    by (rule arg_cong [of _ _ sum_list]) auto
  also have "\<dots> = (\<Sum>k \<leftarrow> ks. if x = k then 1 else 0) + length xs"
    using Cons by (simp add: sum_list_addf)
  also have "(\<Sum>k \<leftarrow> ks. if x = k then 1 else 0) = (1 :: nat)"
    using Cons.prems by (simp add: sum_list_distinct_conv_sum_set)
  finally show ?case by simp
qed simp

lemma group_by_total: "(\<Sum>g \<leftarrow> group_by f xs. length (snd g)) = length xs"
proof -
  have "(\<Sum>g \<leftarrow> group_by f xs. length (snd g)) = (\<Sum>k \<leftarrow> remdups (map f xs). length (filter (\<lambda>y. y = k) (map f xs)))"
    by (simp add: group_by_def comp_def filter_map)
  also have "\<dots> = length (map f xs)" by (rule sum_filter_length) simp_all
  finally show ?thesis by simp
qed

lemma descending_total: "(\<Sum>g \<leftarrow> descending f xs. h g) = (\<Sum>g \<leftarrow> xs. h g :: nat)"
  by (metis mset_descending mset_map sum_mset_sum_list)

subsection \<open>Properties\<close>


lemma in_buckets:
  "(b, g) \<in> set (buckets w cs) \<Longrightarrow> g \<noteq> [] \<and> g = filter (\<lambda>c. go_div (first_ts (snd c)) w = b) cs"
  by (auto simp: buckets_def group_by_mem filter_empty_conv)

lemma distinct_buckets: "distinct (map fst (buckets w cs))"
proof -
  have "mset (map fst (buckets w cs)) = mset (remdups (map (\<lambda>c. go_div (first_ts (snd c)) w) cs))"
    by (simp add: buckets_def flip: fst_group_by)
  then show ?thesis using mset_eq_imp_distinct_iff by blast
qed

text \<open>A trend counts every call of its window once: the totals of the buckets add up to the number of
  calls, each bucket is shown once, in rising order, and holds exactly the calls that started in it.\<close>

theorem trend_counts_each_call_once:
  "(\<Sum>g \<leftarrow> buckets w cs. length (snd g)) = length cs \<and> distinct (map fst (buckets w cs))
   \<and> sorted (map fst (buckets w cs))
   \<and> list_all (\<lambda>(b, g). g \<noteq> [] \<and> g = filter (\<lambda>c. go_div (first_ts (snd c)) w = b) cs) (buckets w cs)"
proof -
  have "(\<Sum>g \<leftarrow> buckets w cs. length (snd g)) = length cs"
    using group_by_total [of "\<lambda>c. go_div (first_ts (snd c)) w" cs]
    by (metis (no_types) buckets_def mset_map mset_sort sum_mset_sum_list)
  moreover have "sorted (map fst (buckets w cs))" by (simp add: buckets_def)
  moreover have "list_all (\<lambda>(b, g). g \<noteq> [] \<and> g = filter (\<lambda>c. go_div (first_ts (snd c)) w = b) cs) (buckets w cs)"
    using in_buckets by (auto simp: list_all_iff)
  ultimately show ?thesis using distinct_buckets by blast
qed

lemma share_bounds: "0 \<le> part \<Longrightarrow> part \<le> whole \<Longrightarrow> 0 \<le> share part whole \<and> share part whole \<le> 100"
proof -
  assume "0 \<le> part" "part \<le> whole"
  moreover have "part * 100 div whole \<le> whole * 100 div whole" if "0 < whole"
    using that \<open>part \<le> whole\<close> by (intro zdiv_mono1) auto
  ultimately show ?thesis by (auto simp: share_def pos_imp_zdiv_nonneg_iff)
qed

lemma answered_or_failed: "count_rows call_answered cs + count_rows call_failed cs \<le> int (length cs)"
  by (rule count_disjoint) (simp add: call_answered_def call_failed_def)

lemma average_call_nonneg: "0 \<le> average_call cs"
proof -
  have "0 \<le> talk_ms cs"
    unfolding talk_ms_def by (intro sum_list_nonneg) (auto simp: call_timed_def)
  moreover have "0 \<le> count_rows call_timed cs" by simp
  ultimately show ?thesis
    by (auto simp: average_call_def Let_def simp del: count_nonneg intro!: div_int_pos_iff [THEN iffD2])
qed

text \<open>The answer and error rates of a trend, of a number's calls and of the realtime report are
  percentages, the cap on the answer rate never applies there, and the network effectiveness ratio the
  realtime report computes is always its answer rate again.\<close>

theorem rates_are_percentages:
  "let ok = count_rows call_answered cs; failed = count_rows call_failed cs; asr = share ok (ok + failed)
   in 0 \<le> asr \<and> asr \<le> 100 \<and> share_capped ok (ok + failed) = asr
    \<and> share (ok + failed - failed) (ok + failed) = asr
    \<and> 0 \<le> error_rate (traffic_of ms) \<and> error_rate (traffic_of ms) \<le> 100"
proof -
  let ?ok = "count_rows call_answered cs" and ?failed = "count_rows call_failed cs"
  have "0 \<le> share ?ok (?ok + ?failed) \<and> share ?ok (?ok + ?failed) \<le> 100"
    by (intro share_bounds) simp_all
  moreover have "0 \<le> error_rate (traffic_of ms) \<and> error_rate (traffic_of ms) \<le> 100"
    unfolding error_rate_def traffic_of_def by (intro share_bounds) simp_all
  ultimately show ?thesis by (auto simp: Let_def share_capped_def)
qed

text \<open>The agents' service levels have no such bound: their answer rate divides by the calls whose
  INVITE was seen, and is 200 or more as soon as twice as many were answered.\<close>

theorem agent_rate_unbounded:
  "0 < count_rows has_invite cs \<Longrightarrow> 2 * count_rows has_invite cs \<le> count_rows call_answered cs \<Longrightarrow>
   200 \<le> share (count_rows call_answered cs) (count_rows has_invite cs)"
proof -
  assume a: "0 < count_rows has_invite cs" "2 * count_rows has_invite cs \<le> count_rows call_answered cs"
  have "200 = 2 * count_rows has_invite cs * 100 div count_rows has_invite cs" using a(1) by simp
  also have "\<dots> \<le> count_rows call_answered cs * 100 div count_rows has_invite cs"
    using a by (intro zdiv_mono1) auto
  finally show ?thesis using a(1) by (simp add: share_def)
qed

definition sample_row :: call_row where
  "sample_row = \<lparr>first_ts = 0, answer_ts = 5, last_ts = 9, last_id = 3, invite_id = 0, last_method = ''200'',
     last_status = 200, answered = True, is_open = True, row_src = [], row_dst = [], row_from = [], row_to = [],
     row_json = []\<rparr>"

theorem agent_rate_unbounded_witness:
  "share (count_rows call_answered [((''a'', []), sample_row), ((''b'', []), sample_row\<lparr>invite_id := 1\<rparr>)])
     (count_rows has_invite [((''a'', []), sample_row), ((''b'', []), sample_row\<lparr>invite_id := 1\<rparr>)]) \<ge> 200"
  using agent_rate_unbounded [of "[((''a'', []), sample_row), ((''b'', []), sample_row\<lparr>invite_id := 1\<rparr>)]"]
  by (simp add: count_rows_def has_invite_def call_answered_def sample_row_def)

lemma minutes_back_5: "sint (minutes_back 5) = - 300000000000"
  by (simp add: minutes_back_def)

lemma make_node_age:
  assumes "ms \<noteq> []" "\<forall>m \<in> set ms. heard_since (window_start (clock 0) (minutes_back 5)) m"
    and "clock 1 - clock 0 \<le> 999000000"
  shows "nd_age (make_node sc clock cfg i (agent, ms)) \<le> 300"
proof -
  let ?seen = "Max (set (map (\<lambda>m. cr_ts_ms (snd m)) ms))"
  have "?seen \<in> set (map (\<lambda>m. cr_ts_ms (snd m)) ms)" by (rule Max_in) (use assms(1) in auto)
  then have "(clock 0 - 300000000000) div 1000000 \<le> ?seen"
    using assms(2) by (auto simp: heard_since_def window_start_def minutes_back_5)
  moreover have "(clock 0 - 300000000000) div 1000000 = clock 0 div 1000000 - 300000"
    using div_mult_self1 [of 1000000 "clock 0" "- 300000"] by simp
  moreover have "clock 1 div 1000000 \<le> (clock 0 + 999 * 1000000) div 1000000"
    using assms(3) by (intro zdiv_mono1) auto
  then have "clock 1 div 1000000 \<le> clock 0 div 1000000 + 999" by simp
  ultimately have "clock 1 div 1000000 - ?seen \<le> 300999" by linarith
  then have "go_div (clock 1 div 1000000 - ?seen) 1000 \<le> 300"
    by (auto simp: go_div_def)
  then show ?thesis by (simp add: make_node_def Let_def now_ms_def)
qed

text \<open>No node is ever shown red: only nodes heard in the last five minutes are listed, and the light is
  red for an age above 300 seconds, unless almost a second passes between two clock readings.\<close>

theorem no_node_is_red:
  "clock 1 - clock 0 \<le> 999000000 \<Longrightarrow> n \<in> set (nodes sc clock cfg) \<Longrightarrow> nd_age n \<le> 300 \<and> nd_light n \<noteq> Red"
proof -
  assume t: "clock 1 - clock 0 \<le> 999000000" and n: "n \<in> set (nodes sc clock cfg)"
  from n obtain i agent ms where n': "n = make_node sc clock cfg i (agent, ms)"
    and g: "(agent, ms) \<in> set (group_by (\<lambda>m. cr_agent (snd m))
        (rows_if (sc_runs sc 0) (filter (heard_since (window_start (clock 0) (minutes_back 5))) (sc_captures sc))))"
    by (fastforce simp: nodes_def Let_def dest: set_zip_rightD)
  have "ms \<noteq> []" using group_not_Nil [OF g] .
  moreover have "\<forall>m \<in> set ms. heard_since (window_start (clock 0) (minutes_back 5)) m"
    using g by (auto simp: group_by_mem rows_if_def)
  ultimately have age: "nd_age n \<le> 300" using make_node_age t n' by blast
  have "nd_light n = node_light (nd_age n)" by (simp add: n' make_node_def Let_def)
  with age show ?thesis by (auto simp: node_light_def)
qed

definition one_message :: table_scan where
  "one_message = \<lparr>sc_captures = [(1, zero_record)], sc_calls = [], sc_daily = [], sc_estimate = 0,
     sc_runs = (\<lambda>_. True), sc_regex = (\<lambda>_ _. False), sc_sql = (\<lambda>_ _. [])\<rparr>"

theorem no_node_is_red_witness:
  "nodes one_message (\<lambda>_. 0) (load_config (\<lambda>_. []) []) \<noteq> []
   \<and> list_all (\<lambda>n. nd_light n \<noteq> Red) (nodes one_message (\<lambda>_. 0) (load_config (\<lambda>_. []) []))"
proof
  show "nodes one_message (\<lambda>_. 0) (load_config (\<lambda>_. []) []) \<noteq> []"
    by (simp add: nodes_def one_message_def Let_def rows_if_def heard_since_def window_start_def minutes_back_5
        zero_record_def group_by_def descending_def)
  show "list_all (\<lambda>n. nd_light n \<noteq> Red) (nodes one_message (\<lambda>_. 0) (load_config (\<lambda>_. []) []))"
    using no_node_is_red [of "\<lambda>_. 0"] by (simp add: list_all_iff)
qed


definition two_calls :: table_scan where
  "two_calls = one_message\<lparr>sc_calls := [((''a'', []), sample_row),
     ((''b'', []), sample_row\<lparr>answered := False, is_open := False, last_status := 486\<rparr>)]\<rparr>"

definition failed_calls_filter :: call_filter where
  "failed_calls_filter = \<lparr>cf_agent = [], cf_state = ''failed'', cf_src = [], cf_dst = [], cf_from = [], cf_to = []\<rparr>"


definition newer :: "int \<times> capture_record \<Rightarrow> int \<times> capture_record \<Rightarrow> bool" where
  "newer a b \<longleftrightarrow> cr_ts_ms (snd b) < cr_ts_ms (snd a) \<or> (cr_ts_ms (snd b) = cr_ts_ms (snd a) \<and> fst b \<le> fst a)"

lemma descending_stable:
  "sorted_wrt R xs \<Longrightarrow> sorted_wrt (\<lambda>a b. f b < f a \<or> (f b = f a \<and> R a b)) (descending f xs)"
proof -
  have ins: "sorted_wrt (\<lambda>a b. f a < f b \<or> (f a = f b \<and> Q a b)) (insort_key f x ys)"
    if "sorted_wrt (\<lambda>a b. f a < f b \<or> (f a = f b \<and> Q a b)) ys" "\<forall>y \<in> set ys. Q x y" for Q x ys
    using that by (induction ys) (auto simp: set_insort_key)
  have srt: "sorted_wrt (\<lambda>a b. f a < f b \<or> (f a = f b \<and> Q a b)) (sort_key f ys)"
    if "sorted_wrt Q ys" for Q ys
    using that by (induction ys) (auto intro!: ins)
  assume "sorted_wrt R xs"
  then have "sorted_wrt (\<lambda>a b. R b a) (rev xs)" by (simp add: sorted_wrt_rev)
  from srt [OF this] show ?thesis by (simp add: descending_def sorted_wrt_rev eq_commute)
qed

lemma newest_first_sorted: "sorted_wrt newer (newest_first ms)"
proof -
  have "sorted_wrt (\<lambda>a b. fst b \<le> fst a) (descending fst ms)" by (rule sorted_descending)
  from descending_stable [OF this, of "\<lambda>m. cr_ts_ms (snd m)"] show ?thesis
    by (simp add: newest_first_def newer_def [abs_def])
qed

lemma newest_first_mset: "mset (newest_first ms) = mset ms"
  by (simp add: newest_first_def)



text \<open>Reading a CSV field: quoted up to a single quote, or plain up to a comma or the end of the line.\<close>

fun csv_quoted :: "string \<Rightarrow> (string \<times> string) option" where
  "csv_quoted [] = None"
| "csv_quoted [c] = (if c = dq then Some ([], []) else None)"
| "csv_quoted (c # d # t) =
     (if c \<noteq> dq then map_option (\<lambda>(x, r). (c # x, r)) (csv_quoted (d # t))
      else if d = dq then map_option (\<lambda>(x, r). (dq # x, r)) (csv_quoted t)
      else Some ([], d # t))"

definition csv_end :: "char \<Rightarrow> bool" where
  "csv_end c \<longleftrightarrow> c = CHR '','' \<or> c = CHR 0x0A"

definition csv_read :: "string \<Rightarrow> (string \<times> string) option" where
  "csv_read s =
     (if s \<noteq> [] \<and> hd s = dq then csv_quoted (tl s)
      else Some (takeWhile (\<lambda>c. \<not> csv_end c) s, dropWhile (\<lambda>c. \<not> csv_end c) s))"

lemma csv_quoted_escape: "rest = [] \<or> hd rest \<noteq> dq \<Longrightarrow> csv_quoted (csv_escape v @ dq # rest) = Some (v, rest)"
proof (induction v)
  case Nil
  then show ?case by (cases rest) (auto simp: csv_escape_def)
next
  case (Cons c v)
  obtain d t where d: "csv_escape v @ dq # rest = d # t" by (cases "csv_escape v @ dq # rest") auto
  have "csv_escape (c # v) = (if c = dq then [dq, dq] else [c]) @ csv_escape v" by (simp add: csv_escape_def)
  with Cons d show ?case by (cases "c = dq") simp_all
qed

text \<open>A field of the CSV export is read back as it was, whatever commas, quotes and line breaks it holds.\<close>

theorem csv_field_reads_back:
  "rest = [] \<or> csv_end (hd rest) \<Longrightarrow> csv_read (csv_field s @ rest) = Some (s, rest)"
proof -
  assume r: "rest = [] \<or> csv_end (hd rest)"
  show ?thesis
  proof (cases "list_ex (\<lambda>c. c \<in> {CHR '','', dq, CHR 0x0A}) s")
    case True
    have "rest = [] \<or> hd rest \<noteq> dq" using r by (auto simp: csv_end_def)
    then show ?thesis using True csv_quoted_escape [of rest s] by (simp add: csv_field_def csv_read_def)
  next
    case False
    then have "list_all (\<lambda>c. \<not> csv_end c) s" and dq: "dq \<notin> set s"
      by (auto simp: list_ex_iff list_all_iff csv_end_def)
    moreover have "\<not> (s @ rest \<noteq> [] \<and> hd (s @ rest) = dq)"
      using r dq by (cases s) (auto simp: csv_end_def)
    ultimately show ?thesis
      using r takeWhile_stop [of "\<lambda>c. \<not> csv_end c" s rest] False by (auto simp: csv_field_def csv_read_def)
  qed
qed

theorem csv_field_reads_back_witness:
  "csv_read (csv_field [CHR ''a'', dq, CHR '',''] @ '',x'') = Some ([CHR ''a'', dq, CHR '',''], '',x'')"
  using csv_field_reads_back [of "'',x''" "[CHR ''a'', dq, CHR '','']"] by (simp add: csv_end_def)

end
