(* ===== verification/Qos.thy ===== *)
theory Qos
  imports Store Document
begin

text \<open>
  Call quality (\<^verbatim>\<open>core-go/qos.go\<close> and \<^verbatim>\<open>buildQoSJSON\<close> of \<^verbatim>\<open>core-go/reports.go\<close>). The source
  computes in 64-bit floating point. Every R factor it computes from a report block is a
  multiple of 1/640 (jitter comes in eighths of a millisecond, loss in 256ths), so the model
  keeps the R factor times 640 as an integer and the score as a quotient of integers. The
  doubles are rounded to integers only at points that are exact or further than 1/100000
  away from the next integer, so rounding errors do not change a result.
\<close>

subsection \<open>Scores\<close>

text \<open>\<open>jitter\<close> is the block's jitter in 8 kHz time stamps, \<open>lost\<close> its fraction lost, 0 to 255.\<close>

definition r640 :: "nat \<Rightarrow> nat \<Rightarrow> int" where
  "r640 jitter lost = 59520 - 8 * int jitter - 625 * int lost"

definition mos_from_jitter_loss :: "nat \<Rightarrow> nat \<Rightarrow> int" where
  "mos_from_jitter_loss jitter lost =
     (let r0 = r640 jitter lost; r1 = (if r0 < 0 then 0 else r0); r = (if r1 > 64000 then 64000 else r1);
          unit = 26214400000000
      in if r < 4160 then 10
         else (2 * (10 * unit + 35 * 409600000 * r + 7 * r * (r - 38400) * (64000 - r)) + unit) div (2 * unit))"

definition r_factor :: "nat \<Rightarrow> nat \<Rightarrow> int" where
  "r_factor jitter lost =
     (let r = r640 jitter lost in if r < 0 then 0 else if r > 64000 then 100 else r div 640)"

text \<open>The same for whole milliseconds and percents, as \<^verbatim>\<open>buildQoSJSON\<close> calls it.\<close>

definition r_factor_whole :: "int \<Rightarrow> int \<Rightarrow> int" where
  "r_factor_whole jitter_ms loss_pct =
     (let r = 930 - jitter_ms - 25 * loss_pct in if r < 0 then 0 else if r > 1000 then 100 else r div 10)"

text \<open>\<^verbatim>\<open>%.1f\<close>: the nearest tenth, a tie going to the even one.\<close>

definition tenths :: "nat \<Rightarrow> nat \<Rightarrow> nat" where
  "tenths num den =
     (let q = 10 * num div den; r = 10 * num mod den
      in if 2 * r > den \<or> (2 * r = den \<and> odd q) then q + 1 else q)"

definition show_tenths :: "nat \<Rightarrow> string" where
  "show_tenths t = show_nat (t div 10) @ [CHR ''.''] @ show_nat (t mod 10)"

subsection \<open>RTCP packets\<close>

record report_block =
  rb_ssrc :: u32
  rb_lost :: nat
  rb_jitter :: nat

definition read_block :: "bytes \<Rightarrow> report_block" where
  "read_block b = \<lparr>rb_ssrc = be32 b, rb_lost = unat (b ! 4), rb_jitter = unat (be32 (drop 12 b))\<rparr>"

text \<open>The blocks of one packet: the loop over \<^verbatim>\<open>rc\<close>, which stops where the payload ends.\<close>

fun packet_blocks :: "nat \<Rightarrow> nat \<Rightarrow> bytes \<Rightarrow> report_block list" where
  "packet_blocks 0 start p = []"
| "packet_blocks (Suc rc) start p =
     (if start + 24 \<le> length p
      then read_block (take 24 (drop start p)) # packet_blocks rc (start + 24) p
      else [])"

text \<open>The loop over the packets of a compound payload.\<close>

function rtcp_blocks :: "nat \<Rightarrow> bytes \<Rightarrow> report_block list" where
  "rtcp_blocks offset p =
     (if offset + 4 \<le> length p then
        (let header = p ! offset; version = drop_bit 6 header AND 3; rc = unat (header AND 0x1F);
             pt = p ! (offset + 1); len = unat (be16 (drop (offset + 2) p)) * 4;
             rest = rtcp_blocks (offset + len + 4) p
         in if version \<noteq> 2 then []
            else if pt \<noteq> 200 \<and> pt \<noteq> 201 then rest
            else packet_blocks rc (if pt = 200 then offset + 28 else offset + 8) p @ rest)
      else [])"
  by pat_completeness auto
termination
  by (relation "measure (\<lambda>(offset, p). length p - offset)") auto

declare rtcp_blocks.simps [simp del]

record qos =
  q_jitter :: nat
  q_lost :: nat
  q_mos :: int

definition add_block :: "report_block \<Rightarrow> qos \<Rightarrow> qos" where
  "add_block b q =
     (let mos = mos_from_jitter_loss (rb_jitter b) (rb_lost b)
      in \<lparr>q_jitter = (if rb_jitter b > q_jitter q then rb_jitter b else q_jitter q),
          q_lost = (if rb_lost b > q_lost q then rb_lost b else q_lost q),
          q_mos = (if mos < q_mos q then mos else q_mos q)\<rparr>)"

definition block_json :: "report_block \<Rightarrow> json" where
  "block_json b = JObj
     [(''ssrc'', doc_int (int (unat (rb_ssrc b)))),
      (''fraction_lost'', JLit (show_tenths (tenths (rb_lost b * 100) 256))),
      (''jitter_ms'', JLit (show_tenths (tenths (rb_jitter b) 8))),
      (''mos_x10'', doc_int (mos_from_jitter_loss (rb_jitter b) (rb_lost b)))]"

definition worst_of :: "report_block list \<Rightarrow> qos" where
  "worst_of bs = fold add_block bs \<lparr>q_jitter = 0, q_lost = 0, q_mos = 50\<rparr>"

definition qos_json :: "report_block list \<Rightarrow> json" where
  "qos_json bs =
     (let q = worst_of bs in JObj
        [(''jitter_ms'', JLit (show_tenths (tenths (q_jitter q) 8))),
         (''loss_pct'', JLit (show_tenths (tenths (q_lost q * 100) 256))),
         (''mos_x10'', doc_int (q_mos q)), (''r_factor'', doc_int (r_factor (q_jitter q) (q_lost q))),
         (''blocks'', JList (map block_json bs))])"

text \<open>The empty text when there is no report block.\<close>

definition rtcp_parse_qos :: "bytes \<Rightarrow> string" where
  "rtcp_parse_qos payload =
     (if length payload < 8 then []
      else (let bs = rtcp_blocks 0 payload in if bs = [] then [] else print_doc (qos_json bs)))"

definition rtp_codec_name :: "int \<Rightarrow> string" where
  "rtp_codec_name pt =
     (if pt = 0 then ''PCMU'' else if pt = 3 then ''GSM'' else if pt = 4 then ''G723''
      else if pt = 8 then ''PCMA'' else if pt = 9 then ''G722'' else if pt = 18 then ''G729''
      else if pt = 101 then ''telephone-event'' else if pt \<in> {111, 112} then ''opus''
      else if pt \<ge> 96 then ''dynamic'' else ''unknown'')"

subsection \<open>The report\<close>

text \<open>The five \<^verbatim>\<open>qos_\<close> columns of \<^verbatim>\<open>call_state\<close> and their defaults; no statement sets them.\<close>

record qos_columns =
  qc_mos :: int
  qc_jitter :: int
  qc_loss :: int
  qc_count :: int
  qc_codec :: string

definition default_qos :: qos_columns where
  "default_qos = \<lparr>qc_mos = 0, qc_jitter = 0, qc_loss = 0, qc_count = 0, qc_codec = []\<rparr>"

text \<open>\<open>None\<close>: the query fails or finds no row.\<close>

definition qos_doc :: "qos_columns option \<Rightarrow> json" where
  "qos_doc row =
     (case row of
        None \<Rightarrow> JList []
      | Some c \<Rightarrow>
          if qc_count c = 0 then JList []
          else JList [JObj
            [(''mos_x10'', doc_int (qc_mos c)), (''jitter_ms'', doc_int (qc_jitter c)),
             (''loss_pct'', doc_int (qc_loss c)),
             (''r_factor'', doc_int (r_factor_whole (qc_jitter c) (qc_loss c))),
             (''codec'', JText (qc_codec c)), (''samples'', doc_int (qc_count c))]])"

text \<open>The columns of the first row of a call, in the order of the table.\<close>

definition stored_qos :: "(call_key \<times> call_row) list \<Rightarrow> string \<Rightarrow> qos_columns option" where
  "stored_qos calls call_id = map_option (\<lambda>_. default_qos) (find (\<lambda>c. fst (fst c) = call_id) calls)"

lemma qos_report_is_empty: "qos_doc (stored_qos calls call_id) = JList []"
  by (simp add: qos_doc_def stored_qos_def default_qos_def split: option.split)

subsection \<open>Bounds\<close>

lemma mos_bounds: "10 \<le> mos_from_jitter_loss j l \<and> mos_from_jitter_loss j l \<le> 45"
proof -
  define r where "r = r640 j l"
  have top: "r \<le> 59520" by (simp add: r_def r640_def)
  define body where "body = 2 * (10 * 26214400000000 + 35 * 409600000 * r + 7 * r * (r - 38400) * (64000 - r)) + 26214400000000"
  have mos: "mos_from_jitter_loss j l = (if r < 4160 then 10 else body div 52428800000000)"
    using top by (simp add: mos_from_jitter_loss_def Let_def r_def body_def)
  have "10 * 52428800000000 \<le> body \<and> body < 46 * 52428800000000" if "4160 \<le> r"
  proof -
    have s: "(r - 38400) * (64000 - r) = (r - 4160) * (98240 - r) - 2048921600"
      by (simp add: algebra_simps)
    have "0 \<le> (r - 4160) * (98240 - r)" using that top by (intro mult_nonneg_nonneg) simp_all
    with s have lo: "- 2048921600 \<le> (r - 38400) * (64000 - r)" by linarith
    have "(r - 38400) * (64000 - r) = 163840000 - (r - 51200) * (r - 51200)" by (simp add: algebra_simps)
    then have hi: "(r - 38400) * (64000 - r) \<le> 163840000" using zero_le_square [of "r - 51200"] by linarith
    define c where "c = r * ((r - 38400) * (64000 - r))"
    have "r * (- 2048921600) \<le> c" unfolding c_def using lo that by (intro mult_left_mono) simp_all
    then have lo': "- 2048921600 * r \<le> c" by linarith
    have "c \<le> r * 163840000" unfolding c_def using hi that by (intro mult_left_mono) simp_all
    then have hi': "c \<le> 163840000 * r" by linarith
    have body: "body = 550502400000000 + 28672000000 * r + 14 * c"
      by (simp add: body_def c_def mult.assoc)
    show ?thesis
    proof
      show "10 * 52428800000000 \<le> body" using body lo' top that by linarith
      show "body < 46 * 52428800000000" using body hi' top that by linarith
    qed
  qed
  then have "10 \<le> body div 52428800000000 \<and> body div 52428800000000 \<le> 45" if "4160 \<le> r"
    using that zdiv_mono1 [of "10 * 52428800000000" body 52428800000000]
      zdiv_mono1 [of body "46 * 52428800000000 - 1" 52428800000000] by fastforce
  then show ?thesis using mos by auto
qed

lemma r_factor_bounds: "0 \<le> r_factor j l \<and> r_factor j l \<le> 93"
  by (auto simp: r_factor_def r640_def Let_def intro: order_trans [OF zdiv_mono1])

lemma q_mos_fold: "q_mos (fold add_block bs q) \<in> {q_mos q} \<union> (\<lambda>b. mos_from_jitter_loss (rb_jitter b) (rb_lost b)) ` set bs"
proof (induction bs arbitrary: q)
  case (Cons b bs)
  from Cons [of "add_block b q"] show ?case by (auto simp: add_block_def Let_def split: if_splits)
qed simp

lemma fold_add_block:
  "q_mos (fold add_block bs q) = fold (\<lambda>b. min (mos_from_jitter_loss (rb_jitter b) (rb_lost b))) bs (q_mos q)
   \<and> q_jitter (fold add_block bs q) = fold (\<lambda>b. max (rb_jitter b)) bs (q_jitter q)
   \<and> q_lost (fold add_block bs q) = fold (\<lambda>b. max (rb_lost b)) bs (q_lost q)"
proof (induction bs arbitrary: q)
  case (Cons b bs)
  have "add_block b q = \<lparr>q_jitter = max (rb_jitter b) (q_jitter q), q_lost = max (rb_lost b) (q_lost q),
      q_mos = min (mos_from_jitter_loss (rb_jitter b) (rb_lost b)) (q_mos q)\<rparr>"
    by (auto simp: add_block_def Let_def)
  with Cons show ?case by simp
qed simp

lemma fold_min_least: "fold (\<lambda>b. min (f b)) bs (m :: 'a::linorder) \<le> m \<and> (\<forall>b \<in> set bs. fold (\<lambda>b. min (f b)) bs m \<le> f b)"
proof (induction bs arbitrary: m)
  case (Cons b bs)
  from Cons [of "min (f b) m"] show ?case by auto
qed simp

lemma fold_max_most: "m \<le> fold (\<lambda>b. max (f b)) bs (m :: 'a::linorder) \<and> (\<forall>b \<in> set bs. f b \<le> fold (\<lambda>b. max (f b)) bs m)"
proof (induction bs arbitrary: m)
  case (Cons b bs)
  from Cons [of "max (f b) m"] show ?case by auto
qed simp

lemma show_tenths_ok: "number_ok (show_tenths t)" "list_all lit_char (show_tenths t)"
proof -
  let ?a = "show_nat (t div 10)" and ?b = "show_nat (t mod 10)"
  have dot: "\<not> is_digit CHR ''.''" and minus: "\<not> is_digit CHR ''-''" by (simp_all add: is_digit_def)
  have split: "takeWhile is_digit (?a @ CHR ''.'' # ?b) = ?a" "dropWhile is_digit (?a @ CHR ''.'' # ?b) = CHR ''.'' # ?b"
    using takeWhile_stop [OF show_nat_digits [of "t div 10"], of "CHR ''.'' # ?b"] dot by simp_all
  have all_b: "takeWhile is_digit ?b = ?b" "dropWhile is_digit ?b = []"
    using takeWhile_stop [OF show_nat_digits [of "t mod 10"], of "[]"] by simp_all
  obtain c u where c: "?a = c # u" "c \<noteq> CHR ''-''" using show_nat_head [of "t div 10"] minus by blast
  have u: "(case show_tenths t of c # v \<Rightarrow> if c = CHR ''-'' then v else show_tenths t | [] \<Rightarrow> show_tenths t)
      = ?a @ CHR ''.'' # ?b"
    using c by (simp add: show_tenths_def)
  have "frac_ok (CHR ''.'' # ?b)"
    using show_nat_digits [of "t mod 10"] by (simp add: frac_ok_def all_b digits1_def exp_ok_def)
  then show "number_ok (show_tenths t)"
    unfolding number_ok_def u Let_def split using int_part_show_nat by blast
  show "list_all lit_char (show_tenths t)"
    using show_nat_digits by (auto simp: show_tenths_def lit_char_def list_all_iff)
qed

lemma doc_ok_qos: "doc_ok (qos_json bs)"
  by (auto simp: qos_json_def block_json_def Let_def show_tenths_ok list_all_iff [where P = doc_ok])

subsection \<open>Properties\<close>


definition sample_rtcp :: bytes where
  "sample_rtcp = [0x81, 201, 0, 7, 0, 0, 0, 1, 0, 0, 0, 9, 128, 0, 0, 0, 0, 0, 0, 0, 0, 0, 3, 32,
     0, 0, 0, 0, 0, 0, 0, 0]"


end
