(* ===== verification/Probe.thy ===== *)
theory Probe
  imports Sip Document Metrics Config
begin

text \<open>
  The SIP probe (\<^verbatim>\<open>core-go/probe.go\<close>): the request read from JSON, the block list of targets,
  the OPTIONS message and the answer. What the network does is the argument: what dialling
  gives, whether a reply arrives, and the clock. \<^verbatim>\<open>net.ParseIP\<close> is written out.
\<close>

subsection \<open>Addresses\<close>

definition parse_v4 :: "string \<Rightarrow> nat list option" where
  "parse_v4 s =
     (let fs = split_on CHR ''.'' s in
      if length fs = 4 \<and> list_all (\<lambda>f. int_part_ok f \<and> digits_val f \<le> 255) fs
      then Some (map digits_val fs) else None)"

definition is_hex :: "char \<Rightarrow> bool" where
  "is_hex c \<longleftrightarrow> hex_val c \<noteq> None"

definition hex_bytes :: "string \<Rightarrow> nat list" where
  "hex_bytes h = (let v = foldl (\<lambda>n c. 16 * n + (case hex_val c of Some d \<Rightarrow> d | None \<Rightarrow> 0)) 0 h
                  in [v div 256, v mod 256])"

text \<open>The groups of an IPv6 text: the bytes so far and where \<open>::\<close> stood.\<close>

function v6_fields :: "nat list \<Rightarrow> nat option \<Rightarrow> string \<Rightarrow> (nat list \<times> nat option) option" where
  "v6_fields acc gap s =
     (if length acc \<ge> 16 then (if s = [] then Some (acc, gap) else None)
      else
        (let h = takeWhile is_hex s; r = dropWhile is_hex s; acc1 = acc @ hex_bytes h in
         if h = [] \<or> length h > 4 then None
         else (case r of
             [] \<Rightarrow> Some (acc1, gap)
           | c # t \<Rightarrow>
               if c = CHR ''.'' then
                 (if gap = None \<and> length acc \<noteq> 12 then None
                  else if length acc + 4 > 16 then None
                  else map_option (\<lambda>q. (acc @ q, gap)) (parse_v4 s))
               else if c \<noteq> CHR '':'' \<or> t = [] then None
               else if hd t = CHR '':'' then
                 (if gap \<noteq> None then None
                  else if tl t = [] then Some (acc1, Some (length acc1))
                  else v6_fields acc1 (Some (length acc1)) (tl t))
               else v6_fields acc1 gap t)))"
  by pat_completeness auto
termination
  by (relation "measure (\<lambda>(acc, gap, s). 16 - length acc)") (auto simp: hex_bytes_def Let_def)

declare v6_fields.simps [simp del]

definition fill_gap :: "nat list \<times> nat option \<Rightarrow> nat list option" where
  "fill_gap f =
     (case f of (acc, gap) \<Rightarrow>
        (case gap of
           None \<Rightarrow> if length acc < 16 then None else Some acc
         | Some e \<Rightarrow> if length acc < 16 then Some (take e acc @ replicate (16 - length acc) 0 @ drop e acc) else None))"

definition parse_v6 :: "string \<Rightarrow> nat list option" where
  "parse_v6 s =
     (if CHR ''%'' \<in> set s then None
      else if has_prefix s ''::'' then
        (if drop 2 s = [] then Some (replicate 16 0)
         else Option.bind (v6_fields [] (Some 0) (drop 2 s)) fill_gap)
      else Option.bind (v6_fields [] None s) fill_gap)"

text \<open>The first of the characters \<open>.\<close>, \<open>:\<close> and \<open>%\<close> decides which form is read.\<close>

definition parse_ip :: "string \<Rightarrow> nat list option" where
  "parse_ip s =
     (case dropWhile (\<lambda>c. c \<notin> {CHR ''.'', CHR '':'', CHR ''%''}) s of
        [] \<Rightarrow> None
      | c # _ \<Rightarrow> if c = CHR ''.'' then parse_v4 s else if c = CHR '':'' then parse_v6 s else None)"

text \<open>\<^verbatim>\<open>To4\<close>: the four bytes of an IPv4 address, also of one mapped into IPv6.\<close>

definition to4 :: "nat list \<Rightarrow> nat list option" where
  "to4 ip =
     (if length ip = 4 then Some ip
      else if take 12 ip = replicate 10 0 @ [255, 255] then Some (drop 12 ip) else None)"

definition dotted :: "nat list \<Rightarrow> string" where
  "dotted q = join ''.'' (map show_nat q)"

definition private_prefixes :: "string list" where
  "private_prefixes = [''10.'', ''192.168.'', ''172.16.'', ''172.17.'', ''172.18.'', ''172.19.'',
     ''172.20.'', ''172.21.'', ''172.22.'', ''172.23.'', ''172.24.'', ''172.25.'',
     ''172.26.'', ''172.27.'', ''172.28.'', ''172.29.'', ''172.30.'', ''172.31.'', ''127.'']"

text \<open>
  The text of an IPv6 address has no dot, so none of the prefixes is one of it; the text of an
  IPv4 address, mapped or not, is the dotted one.
\<close>

definition is_private_ip :: "string \<Rightarrow> bool" where
  "is_private_ip host =
     (case Option.bind (parse_ip host) to4 of
        None \<Rightarrow> False
      | Some q \<Rightarrow> list_ex (has_prefix (dotted q)) private_prefixes)"

definition is_blocked_host :: "unicode \<Rightarrow> config \<Rightarrow> string \<Rightarrow> bool" where
  "is_blocked_host u cfg host \<longleftrightarrow>
     (if to_lower u host = ''metadata.google.internal'' \<or> has_prefix host ''169.254.'' then True
      else if \<not> probe_allow_private cfg \<and> is_private_ip host then True else False)"

subsection \<open>The request\<close>

record probe_request =
  pr_host :: string
  pr_port :: int
  pr_wait :: int

text \<open>
  \<^verbatim>\<open>json.Unmarshal\<close> into the structure: names match without regard to case, \<^verbatim>\<open>null\<close> leaves a
  field alone, a value of the wrong type is an error that is reported at the end.
\<close>

definition set_int :: "(int \<Rightarrow> probe_request) \<Rightarrow> json \<Rightarrow> probe_request \<Rightarrow> probe_request option" where
  "set_int upd v r =
     (case v of
        JLit l \<Rightarrow> (case parse_int64 l of Inr n \<Rightarrow> Some (upd n) | Inl _ \<Rightarrow> None)
      | JNull \<Rightarrow> Some r
      | _ \<Rightarrow> None)"

definition set_member :: "unicode \<Rightarrow> string \<times> json \<Rightarrow> probe_request \<Rightarrow> probe_request option" where
  "set_member u m r =
     (if equal_fold u (fst m) ''host'' then
        (case snd m of JText s \<Rightarrow> Some (r\<lparr>pr_host := s\<rparr>) | JNull \<Rightarrow> Some r | _ \<Rightarrow> None)
      else if equal_fold u (fst m) ''port'' then set_int (\<lambda>n. r\<lparr>pr_port := n\<rparr>) (snd m) r
      else if equal_fold u (fst m) ''wait_ms'' then set_int (\<lambda>n. r\<lparr>pr_wait := n\<rparr>) (snd m) r
      else Some r)"

fun set_members :: "unicode \<Rightarrow> (string \<times> json) list \<Rightarrow> probe_request \<Rightarrow> probe_request option" where
  "set_members u [] r = Some r"
| "set_members u (m # ms) r = Option.bind (set_member u m r) (set_members u ms)"

definition unmarshal_probe :: "unicode \<Rightarrow> string \<Rightarrow> probe_request option" where
  "unmarshal_probe u body =
     (let r = \<lparr>pr_host = [], pr_port = 0, pr_wait = 0\<rparr> in
      case decode_all body of
        Some (JObj ms) \<Rightarrow> set_members u ms r
      | Some JNull \<Rightarrow> Some r
      | _ \<Rightarrow> None)"

definition with_defaults :: "probe_request \<Rightarrow> probe_request" where
  "with_defaults r = r
     \<lparr>pr_port := (if pr_port r \<le> 0 \<or> pr_port r > 65535 then 5060 else pr_port r),
      pr_wait := (if pr_wait r \<le> 0 \<or> pr_wait r > 5000 then 3000 else pr_wait r)\<rparr>"

subsection \<open>The probe\<close>

text \<open>
  The network: dialling an address within a time gives an error text or the local address; the
  reply to a message, if one comes in time; the clock readings in nanoseconds, and the round
  trip in milliseconds.
\<close>

record probe_net =
  pn_dial :: "string \<Rightarrow> int \<Rightarrow> string + string"
  pn_reply :: "string \<Rightarrow> string \<Rightarrow> string option"
  pn_nano :: "nat \<Rightarrow> int"
  pn_rtt :: int

definition join_host_port :: "string \<Rightarrow> string \<Rightarrow> string" where
  "join_host_port host port =
     (if CHR '':'' \<in> set host then ''['' @ host @ '']:'' @ port else host @ '':'' @ port)"

definition probe_call_id :: "probe_net \<Rightarrow> string" where
  "probe_call_id net = ''zaman-probe-'' @ show_int (pn_nano net 0) @ ''@zaman.local''"

definition probe_message :: "probe_net \<Rightarrow> string \<Rightarrow> string \<Rightarrow> string" where
  "probe_message net host local_addr = concat
     [''OPTIONS sip:echo@'', host, '' SIP/2.0'', crlf,
      ''Via: SIP/2.0/UDP '', local_addr, '';rport;branch=z9hG4bK-'', show_int (pn_nano net 1), crlf,
      ''From: Zaman Probe <sip:probe@zaman.local>;tag=prb'', show_int (pn_nano net 2 mod 100000), crlf,
      ''To: <sip:echo@'', host, ''>'', crlf,
      ''Call-ID: '', probe_call_id net, crlf,
      ''CSeq: 1 OPTIONS'', crlf,
      ''User-Agent: Zaman-Probe/'', version, crlf,
      ''Max-Forwards: 70'', crlf,
      ''Content-Length: 0'', crlf, crlf]"

definition refusal :: "string \<Rightarrow> json" where
  "refusal reason = JObj [(''ok'', JBool False), (''error'', JText reason)]"

record probe_outcome =
  po_reply :: json
  po_metrics :: metrics
  po_dialled :: "(string \<times> int) option"
  po_sent :: "string option"

definition refused :: "string \<Rightarrow> metrics \<Rightarrow> probe_outcome" where
  "refused reason m = \<lparr>po_reply = refusal reason, po_metrics = m, po_dialled = None, po_sent = None\<rparr>"

text \<open>From \<^verbatim>\<open>net.JoinHostPort\<close> on: dial, send, wait for the answer.\<close>

definition send_probe :: "unicode \<Rightarrow> probe_net \<Rightarrow> probe_request \<Rightarrow> metrics \<Rightarrow> probe_outcome" where
  "send_probe u net r m =
     (let addr = join_host_port (pr_host r) (show_int (pr_port r)); call_id = probe_call_id net in
      case pn_dial net addr (pr_wait r) of
        Inl err \<Rightarrow> \<lparr>po_reply = refusal err, po_metrics = inc probes_fail_update 1 m,
                     po_dialled = Some (addr, pr_wait r), po_sent = None\<rparr>
      | Inr local_addr \<Rightarrow>
          (let msg = probe_message net (pr_host r) local_addr;
               common = [(''host'', JText (pr_host r)), (''port'', doc_int (pr_port r))];
               tail = [(''rtt_ms'', doc_int (pn_rtt net)), (''call_id'', JText call_id)]
           in case pn_reply net addr msg of
                None \<Rightarrow> \<lparr>po_reply = JObj ((''ok'', JBool False) # common @ (''error'', JText ''timeout'') # tail),
                         po_metrics = inc probes_fail_update 1 m, po_dialled = Some (addr, pr_wait r), po_sent = Some msg\<rparr>
              | Some resp \<Rightarrow>
                  \<lparr>po_reply = JObj ((''ok'', JBool True) # common
                       @ (''status'', doc_int (si_status (parse_sip u (take 4096 resp)))) # tail),
                   po_metrics = (inc probes_ok_update 1 m)\<lparr>probe_rtt := word_of_int (pn_rtt net)\<rparr>,
                   po_dialled = Some (addr, pr_wait r), po_sent = Some msg\<rparr>))"

definition do_probe :: "unicode \<Rightarrow> config \<Rightarrow> probe_net \<Rightarrow> string \<Rightarrow> metrics \<Rightarrow> probe_outcome" where
  "do_probe u cfg net body m =
     (if \<not> probe_enabled cfg then refused ''probe disabled (set ZAMAN_PROBE=1)'' m
      else (case unmarshal_probe u body of
          None \<Rightarrow> refused ''invalid json'' m
        | Some r0 \<Rightarrow>
            if pr_host r0 = [] then refused ''host required'' m
            else (let r = with_defaults r0 in
                  if is_blocked_host u cfg (pr_host r) then refused ''host blocked'' m
                  else send_probe u net r m)))"

subsection \<open>The block list on IPv4 addresses\<close>

lemma digits_no_dot: "list_all is_digit x \<Longrightarrow> CHR ''.'' \<notin> set x"
  by (auto simp: list_all_iff is_digit_def)

lemma prefix_digits:
  assumes "list_all is_digit x" "list_all is_digit p"
  shows "has_prefix (x @ CHR ''.'' # r) (p @ CHR ''.'' # s) \<longleftrightarrow> x = p \<and> has_prefix r s"
  using assms
proof (induction x arbitrary: p)
  case Nil
  then show ?case by (cases p) (auto simp: is_digit_def)
next
  case (Cons c x)
  then show ?case by (cases p) (auto simp: is_digit_def)
qed

lemma show_nat_eq_iff: "show_nat a = show_nat b \<longleftrightarrow> a = b"
  by (metis digits_val_show_nat)

lemma dotted_4: "dotted [a, b, c, d] = show_nat a @ CHR ''.'' # show_nat b @ CHR ''.'' # show_nat c @ CHR ''.'' # show_nat d"
  by (simp add: dotted_def)

lemma prefix_1: "has_prefix (dotted [a, b, c, d]) (show_nat n @ ''.'') \<longleftrightarrow> a = n"
  using prefix_digits [OF show_nat_digits [of a] show_nat_digits [of n], where s = "[]"]
  by (simp add: dotted_4 show_nat_eq_iff)

lemma prefix_2: "has_prefix (dotted [a, b, c, d]) (show_nat n @ CHR ''.'' # show_nat k @ ''.'') \<longleftrightarrow> a = n \<and> b = k"
  using prefix_digits [OF show_nat_digits [of a] show_nat_digits [of n]]
    prefix_digits [OF show_nat_digits [of b] show_nat_digits [of k], where s = "[]"]
  by (simp add: dotted_4 show_nat_eq_iff)

lemma private_prefixes_shape:
  "private_prefixes = [show_nat 10 @ ''.'', show_nat 192 @ CHR ''.'' # show_nat 168 @ ''.'']
     @ map (\<lambda>k. show_nat 172 @ CHR ''.'' # show_nat k @ ''.'') [16..<32] @ [show_nat 127 @ ''.'']"
  by code_simp

definition private_v4 :: "nat list \<Rightarrow> bool" where
  "private_v4 q \<longleftrightarrow> q ! 0 = 10 \<or> q ! 0 = 127 \<or> (q ! 0 = 192 \<and> q ! 1 = 168)
     \<or> (q ! 0 = 172 \<and> 16 \<le> q ! 1 \<and> q ! 1 < 32)"

lemma dotted_private: "list_ex (has_prefix (dotted [a, b, c, d])) private_prefixes \<longleftrightarrow> private_v4 [a, b, c, d]"
proof -
  have ex: "list_ex P (map f [m..<n]) \<longleftrightarrow> (\<exists>k. m \<le> k \<and> k < n \<and> P (f k))" for P :: "string \<Rightarrow> bool" and f m n
    by (auto simp: list_ex_iff)
  show ?thesis
    unfolding private_prefixes_shape list_ex_append ex prefix_2
    by (simp add: prefix_1 prefix_2 private_v4_def del: has_prefix_simps) blast
qed

lemma parse_v4_dotted:
  assumes "list_all (\<lambda>n. n \<le> 255) [a, b, c, d]"
  shows "parse_v4 (dotted [a, b, c, d]) = Some [a, b, c, d]"
proof -
  have "split_on CHR ''.'' (dotted [a, b, c, d]) = map show_nat [a, b, c, d]"
    unfolding dotted_def using digits_no_dot [OF show_nat_digits] by (intro split_on_join) auto
  then show ?thesis using assms int_part_show_nat by (simp add: parse_v4_def)
qed

lemma skip_to_dot: "dropWhile (\<lambda>c. c \<notin> {CHR ''.'', CHR '':'', CHR ''%''}) (show_nat a @ CHR ''.'' # t) = CHR ''.'' # t"
  by (rule takeWhile_stop(2)) (use show_nat_digits [of a] in \<open>auto simp: list_all_iff is_digit_def\<close>)

lemma parse_ip_dotted:
  "list_all (\<lambda>n. n \<le> 255) [a, b, c, d] \<Longrightarrow> parse_ip (dotted [a, b, c, d]) = Some [a, b, c, d]"
  using parse_v4_dotted [of a b c d] skip_to_dot [of a] by (simp add: parse_ip_def dotted_4)

text \<open>The same address written as an IPv6 address.\<close>

lemma digit_hex: "list_all is_digit x \<Longrightarrow> list_all is_hex x"
  by (auto simp: list_all_iff is_digit_def is_hex_def hex_val_def Let_def)

lemma show_nat_short: "n \<le> 255 \<Longrightarrow> length (show_nat n) \<le> 4"
proof -
  have one: "length (show_nat k) = 1" if "k < 10" for k using that by (subst show_nat.simps) simp
  have up: "length (show_nat k) \<le> Suc (length (show_nat (k div 10)))" for k
    by (subst show_nat.simps) (simp add: Suc_le_eq)
  assume "n \<le> 255"
  then have "n div 10 div 10 < 10" by simp
  from one [OF this] show ?thesis using up [of n] up [of "n div 10"] by linarith
qed

lemma v6_tail:
  assumes "list_all (\<lambda>n. n \<le> 255) [a, b, c, d]"
    and "takeWhile is_hex (dotted [a, b, c, d]) = show_nat a"
    and "dropWhile is_hex (dotted [a, b, c, d]) = CHR ''.'' # t"
  shows "v6_fields [255, 255] (Some 0) (dotted [a, b, c, d]) = Some ([255, 255, a, b, c, d], Some 0)"
proof -
  have "\<not> length (show_nat a) > 4" using show_nat_short [of a] assms(1) by simp
  then show ?thesis
    by (subst v6_fields.simps, simp only: Let_def assms(2,3) list.case)
      (simp add: parse_v4_dotted [OF assms(1)])
qed

lemma parse_v6_mapped:
  assumes "list_all (\<lambda>n. n \<le> 255) [a, b, c, d]"
  shows "parse_v6 (''::ffff:'' @ dotted [a, b, c, d]) = Some (replicate 10 0 @ [255, 255, a, b, c, d])"
proof -
  let ?q = "dotted [a, b, c, d]"
  obtain x u where x: "show_nat a = x # u" "is_digit x" using show_nat_head [of a] by blast
  then have hd: "?q \<noteq> []" "hd ?q \<noteq> CHR '':''" by (auto simp: dotted_4 is_digit_def)
  have dot: "\<not> is_hex CHR ''.''" and colon: "\<not> is_hex CHR '':''" and f: "is_hex CHR ''f''"
    by (simp_all add: is_hex_def hex_val_def)
  have q: "takeWhile is_hex ?q = show_nat a" "\<exists>t. dropWhile is_hex ?q = CHR ''.'' # t"
    using takeWhile_stop [OF digit_hex [OF show_nat_digits [of a]], of "CHR ''.'' # show_nat b @ CHR ''.'' # show_nat c @ CHR ''.'' # show_nat d"] dot
    by (simp_all add: dotted_4)
  have two: "v6_fields [255, 255] (Some 0) ?q = Some ([255, 255, a, b, c, d], Some 0)"
    using q v6_tail [OF assms q(1)] by blast
  have ffff: "hex_bytes ''ffff'' = [255, 255]" by (simp add: hex_bytes_def hex_val_def Let_def)
  have group: "takeWhile is_hex (''ffff:'' @ ?q) = ''ffff''" "dropWhile is_hex (''ffff:'' @ ?q) = CHR '':'' # ?q"
    by (simp_all add: f colon)
  have "v6_fields [] (Some 0) (''ffff:'' @ ?q) = v6_fields [255, 255] (Some 0) ?q"
    by (subst v6_fields.simps, simp only: Let_def group list.case ffff append_Nil) (simp add: hd)
  moreover have "CHR ''%'' \<notin> set ?q"
    using show_nat_digits [of a] show_nat_digits [of b] show_nat_digits [of c] show_nat_digits [of d]
    by (auto simp: dotted_4 list_all_iff is_digit_def)
  ultimately show ?thesis
    by (simp add: parse_v6_def two fill_gap_def)
qed

lemma parse_ip_mapped:
  "list_all (\<lambda>n. n \<le> 255) [a, b, c, d] \<Longrightarrow>
   parse_ip (''::ffff:'' @ dotted [a, b, c, d]) = Some (replicate 10 0 @ [255, 255, a, b, c, d])"
  using parse_v6_mapped [of a b c d] by (simp add: parse_ip_def)

lemma private_dotted:
  assumes "list_all (\<lambda>n. n \<le> 255) [a, b, c, d]"
  shows "is_private_ip (dotted [a, b, c, d]) = private_v4 [a, b, c, d]"
    and "is_private_ip (''::ffff:'' @ dotted [a, b, c, d]) = private_v4 [a, b, c, d]"
  using parse_ip_dotted [OF assms] parse_ip_mapped [OF assms] dotted_private
  by (simp_all add: is_private_ip_def to4_def)

subsection \<open>Properties\<close>

text \<open>An IPv4 address, plain or mapped into IPv6, counts as private exactly when it is in 10/8, 127/8,
  192.168/16 or 172.16/12; an IPv6 address of any other form never does, the loopback address included.\<close>

theorem private_check_is_exact:
  "list_all (\<lambda>n. n \<le> 255) [a, b, c, d] \<Longrightarrow>
   is_private_ip (dotted [a, b, c, d]) = private_v4 [a, b, c, d]
   \<and> is_private_ip (''::ffff:'' @ dotted [a, b, c, d]) = private_v4 [a, b, c, d]
   \<and> \<not> is_private_ip ''::1''"
proof -
  have "parse_ip ''::1'' = Some (replicate 15 0 @ [1])" by code_simp
  moreover have "to4 (replicate 15 0 @ [1]) = None" by code_simp
  ultimately have "\<not> is_private_ip ''::1''" by (simp add: is_private_ip_def)
  then show "list_all (\<lambda>n. n \<le> 255) [a, b, c, d] \<Longrightarrow> ?thesis" using private_dotted by blast
qed

theorem private_check_is_exact_witness:
  "is_private_ip (dotted [172, 31, 0, 1]) \<and> \<not> is_private_ip (dotted [172, 32, 0, 1])"
  using private_check_is_exact [of 172 31 0 1] private_check_is_exact [of 172 32 0 1]
  by (simp add: private_v4_def)

text \<open>The block of the metadata addresses looks at the text only: 169.254.169.254 is refused, the same
  address mapped into IPv6 is not.\<close>

theorem mapped_metadata_not_blocked:
  "is_blocked_host u cfg ''169.254.169.254'' \<and> \<not> is_blocked_host u cfg ''::ffff:169.254.169.254''"
proof
  show "is_blocked_host u cfg ''169.254.169.254''" by (simp add: is_blocked_host_def)
  have q: "dotted [169, 254, 169, 254] = ''169.254.169.254''" by code_simp
  have "\<not> is_private_ip (''::ffff:'' @ dotted [169, 254, 169, 254])"
    by (subst private_dotted(2)) (simp_all add: private_v4_def)
  moreover have "to_lower u ''::ffff:169.254.169.254'' = ''::ffff:169.254.169.254''"
    by (simp add: to_lower_ascii lower_char_def)
  ultimately show "\<not> is_blocked_host u cfg ''::ffff:169.254.169.254''"
    by (simp add: is_blocked_host_def q)
qed

lemma with_defaults_range:
  "1 \<le> pr_port (with_defaults r) \<and> pr_port (with_defaults r) \<le> 65535
   \<and> 1 \<le> pr_wait (with_defaults r) \<and> pr_wait (with_defaults r) \<le> 5000
   \<and> pr_host (with_defaults r) = pr_host r"
  by (auto simp: with_defaults_def)

lemma send_probe_outcome:
  "po_dialled (send_probe u net r m) = Some (join_host_port (pr_host r) (show_int (pr_port r)), pr_wait r)
   \<and> doc_ok (po_reply (send_probe u net r m))
   \<and> probes_ok (po_metrics (send_probe u net r m)) + probes_fail (po_metrics (send_probe u net r m))
     = probes_ok m + probes_fail m + 1"
  by (simp add: send_probe_def Let_def refusal_def inc_def split: sum.split option.split)

text \<open>C15: the network is touched only when probing is enabled, for a non-empty host that is not blocked, on a
  port from 1 to 65535 and with a wait of at most five seconds; then exactly one of the two probe counters
  goes up by one, and otherwise nothing changes. Every reply is a JSON document.\<close>

theorem probe_is_guarded:
  "let out = do_probe u cfg net body m in
     decode_all (print_doc (po_reply out)) = Some (clean_doc (po_reply out)) \<and>
     (case po_dialled out of
        None \<Rightarrow> po_metrics out = m \<and> po_sent out = None
      | Some (addr, wait) \<Rightarrow> probe_enabled cfg \<and> 1 \<le> wait \<and> wait \<le> 5000
          \<and> (\<exists>host port. addr = join_host_port host (show_int port) \<and> host \<noteq> [] \<and> \<not> is_blocked_host u cfg host
               \<and> 1 \<le> port \<and> port \<le> 65535)
          \<and> probes_ok (po_metrics out) + probes_fail (po_metrics out) = probes_ok m + probes_fail m + 1)"
proof -
  let ?out = "do_probe u cfg net body m"
  consider (refused) reason where "?out = refused reason m"
    | (sent) r0 where "probe_enabled cfg" "pr_host r0 \<noteq> []" "\<not> is_blocked_host u cfg (pr_host r0)"
        "?out = send_probe u net (with_defaults r0) m"
    using with_defaults_range by (fastforce simp: do_probe_def Let_def split: option.splits if_splits)
  then show ?thesis
  proof cases
    case refused
    have "doc_ok (refusal reason)" by (simp add: refusal_def)
    from decode_printed [OF this] refused show ?thesis by (simp add: refused_def)
  next
    case sent
    then show ?thesis
      using send_probe_outcome [of u net "with_defaults r0" m] with_defaults_range [of r0]
      by (auto simp: Let_def decode_printed)
  qed
qed

end
