(* ===== verification/Alerts.thy ===== *)
theory Alerts
  imports Reports "HOL-Library.AList"
begin

text \<open>
  Webhook alerts (\<^verbatim>\<open>core-go/alerts.go\<close>): the configuration file, and what the worker posts on
  a tick. The worker reads its own anomaly report back from JSON, as the source does. The
  file's content, the tables, the clock and the time stamp of the payload are arguments; a
  delivery that fails is only logged, so the posts that are attempted are the result.
\<close>

record alert_config =
  ac_webhooks :: "string list"
  ac_thresholds :: "(string \<times> int) list"

definition default_alert_config :: alert_config where
  "default_alert_config = \<lparr>ac_webhooks = [], ac_thresholds = [(''asr_min'', 70), (''err_rate_max'', 10)]\<rparr>"

text \<open>
  \<^verbatim>\<open>json.Unmarshal\<close> into the structure, its error ignored: a text that is not JSON changes
  nothing, an element of the wrong type keeps the value it had.
\<close>

fun set_items :: "string list \<Rightarrow> json list \<Rightarrow> string list" where
  "set_items old [] = []"
| "set_items old (v # vs) =
     (case v of JText s \<Rightarrow> s | _ \<Rightarrow> (case old of x # _ \<Rightarrow> x | [] \<Rightarrow> [])) # set_items (drop 1 old) vs"

definition set_webhooks :: "json \<Rightarrow> string list \<Rightarrow> string list" where
  "set_webhooks v old = (case v of JList vs \<Rightarrow> set_items old vs | JNull \<Rightarrow> [] | _ \<Rightarrow> old)"

definition threshold_value :: "json \<Rightarrow> int" where
  "threshold_value v = (case v of JLit l \<Rightarrow> (case parse_int64 l of Inr n \<Rightarrow> n | Inl _ \<Rightarrow> 0) | _ \<Rightarrow> 0)"

definition set_thresholds :: "json \<Rightarrow> (string \<times> int) list \<Rightarrow> (string \<times> int) list" where
  "set_thresholds v old =
     (case v of
        JObj ms \<Rightarrow> fold (\<lambda>m t. AList.update (fst m) (threshold_value (snd m)) t) ms old
      | JNull \<Rightarrow> [] | _ \<Rightarrow> old)"

definition set_alert_field :: "unicode \<Rightarrow> string \<times> json \<Rightarrow> alert_config \<Rightarrow> alert_config" where
  "set_alert_field u m c =
     (if equal_fold u (fst m) ''webhooks'' then c\<lparr>ac_webhooks := set_webhooks (snd m) (ac_webhooks c)\<rparr>
      else if equal_fold u (fst m) ''thresholds'' then c\<lparr>ac_thresholds := set_thresholds (snd m) (ac_thresholds c)\<rparr>
      else c)"

definition load_alert_config :: "unicode \<Rightarrow> string option \<Rightarrow> alert_config" where
  "load_alert_config u file =
     (case file of
        None \<Rightarrow> default_alert_config
      | Some text \<Rightarrow> (case decode_all text of
            Some (JObj ms) \<Rightarrow> fold (set_alert_field u) ms default_alert_config
          | _ \<Rightarrow> default_alert_config))"

subsection \<open>The worker\<close>

definition member :: "string \<Rightarrow> (string \<times> json) list \<Rightarrow> json option" where
  "member k ms = map_of (rev ms) k"

text \<open>\<^verbatim>\<open>fmt.Sprintf("%v", v)\<close> of a member that is a string or a whole number; a missing one is \<^verbatim>\<open><nil>\<close>.\<close>

definition show_member :: "json option \<Rightarrow> string" where
  "show_member v = (case v of Some (JText s) \<Rightarrow> s | Some (JLit l) \<Rightarrow> l | _ \<Rightarrow> ''<nil>'')"

record alert =
  al_type :: string
  al_message :: string
  al_count :: string

definition alert_of :: "json \<Rightarrow> alert option" where
  "alert_of a =
     (case a of
        JObj ms \<Rightarrow>
          (if member ''severity'' ms = Some (JText ''critical'') then
             Some \<lparr>al_type = show_member (member ''type'' ms), al_message = show_member (member ''message'' ms),
                   al_count = show_member (member ''count'' ms)\<rparr>
           else None)
      | _ \<Rightarrow> None)"

definition alerts_in :: "string \<Rightarrow> alert list" where
  "alerts_in text =
     (case decode_all text of Some (JList vs) \<Rightarrow> List.map_filter alert_of vs | _ \<Rightarrow> [])"

text \<open>\<^verbatim>\<open>json.Marshal\<close> of the maps: their keys in order. The texts are plain ASCII.\<close>

definition payload :: "string \<Rightarrow> alert list \<Rightarrow> string" where
  "payload stamp as = print_doc (JObj
     [(''alerts'', JList (map (\<lambda>a. JObj [text_member ''count'' (al_count a), text_member ''message'' (al_message a),
         text_member ''type'' (al_type a)]) as)),
      text_member ''source'' ''zaman'', text_member ''timestamp'' stamp])"

definition alert_tick ::
  "unicode \<Rightarrow> string option \<Rightarrow> table_scan \<Rightarrow> (nat \<Rightarrow> int) \<Rightarrow> config \<Rightarrow> string \<Rightarrow> (string \<times> string) list" where
  "alert_tick u file sc clock cfg stamp =
     (let acfg = load_alert_config u file in
      if ac_webhooks acfg = [] then []
      else
        (let text = report_text sc clock cfg AnomalyList in
         if text = ''[]'' then []
         else (let alerts = alerts_in text in
               if alerts = [] then []
               else map (\<lambda>url. (url, payload stamp alerts)) (ac_webhooks acfg))))"

subsection \<open>What becomes an alert\<close>

definition critical_alert :: "anomaly \<Rightarrow> alert option" where
  "critical_alert a =
     (if an_severity a = Critical then
        Some \<lparr>al_type = an_type a, al_message = an_message a, al_count = show_int (an_count a)\<rparr> else None)"

lemma ascii_keys [simp]:
  "sanitize ''type'' = ''type''" "sanitize ''severity'' = ''severity''" "sanitize ''count'' = ''count''"
  "sanitize ''message'' = ''message''" "sanitize ''warning'' = ''warning''" "sanitize ''critical'' = ''critical''"
  by (simp_all add: sanitize_ascii)

lemma alert_of_anomaly:
  assumes "ascii (an_type a)" "ascii (an_message a)"
  shows "alert_of (clean_doc (anomaly_json a)) = critical_alert a"
  using assms
  by (cases "an_severity a")
    (simp_all add: alert_of_def critical_alert_def anomaly_json_def member_def show_member_def text_member_def
      number_member_def severity_text_def sanitize_ascii doc_int_def)

lemma alerts_in_report:
  assumes "\<forall>a \<in> set (anomalies sc clock). ascii (an_type a) \<and> ascii (an_message a)"
  shows "alerts_in (report_text sc clock cfg AnomalyList) = List.map_filter critical_alert (anomalies sc clock)"
proof -
  have each: "\<forall>a \<in> set as. ascii (an_type a) \<and> ascii (an_message a) \<Longrightarrow>
      List.map_filter alert_of (map (clean_doc \<circ> anomaly_json) as) = List.map_filter critical_alert as" for as
    by (induction as) (simp_all add: alert_of_anomaly split: option.split)
  show ?thesis
    using each [OF assms] by (simp add: alerts_in_def decode_report report_doc_def anomalies_doc_def)
qed

lemma anomalies_ascii: "a \<in> set (anomalies sc clock) \<Longrightarrow> ascii (an_type a) \<and> ascii (an_message a)"
  by (auto simp: anomalies_def Let_def split: if_splits)

definition server_errors :: "table_scan \<Rightarrow> (nat \<Rightarrow> int) \<Rightarrow> int" where
  "server_errors sc clock = recent_count sc clock 1 (status_from 500)"

definition server_alert :: "int \<Rightarrow> alert" where
  "server_alert n = \<lparr>al_type = ''5xx_errors'', al_message = ''Server errors detected in 5m'', al_count = show_int n\<rparr>"

lemma alerts_are_server_errors:
  "alerts_in (report_text sc clock cfg AnomalyList)
   = (if server_errors sc clock > 0 then [server_alert (server_errors sc clock)] else [])"
proof -
  have "alerts_in (report_text sc clock cfg AnomalyList) = List.map_filter critical_alert (anomalies sc clock)"
    by (rule alerts_in_report) (use anomalies_ascii in blast)
  also have "\<dots> = (if server_errors sc clock > 0 then [server_alert (server_errors sc clock)] else [])"
    by (simp add: anomalies_def Let_def critical_alert_def server_errors_def server_alert_def)
  finally show ?thesis .
qed

lemma anomaly_text_not_empty:
  "server_errors sc clock > 0 \<Longrightarrow> report_text sc clock cfg AnomalyList \<noteq> ''[]''"
proof
  assume "server_errors sc clock > 0" "report_text sc clock cfg AnomalyList = ''[]''"
  moreover have "alerts_in ''[]'' = []"
    using decode_printed [of "JList []"] by (simp add: alerts_in_def)
  ultimately show False using alerts_are_server_errors [of sc clock cfg] by simp
qed

subsection \<open>Properties\<close>


end
