(* ===== verification/Api.thy ===== *)
theory Api
  imports Http Limiter Cache Reports Qos Probe Alerts Writer
begin

text \<open>
  The HTTP API of the core (\<^verbatim>\<open>apiWorker\<close> of \<^verbatim>\<open>core-go/api.go\<close>): the routes, the rate limit and
  API key in front of them, and the handlers, one definition each. The database, the
  response cache, the counters and the limiter are the state; what the outside decides (the
  clock, the order in which tables are visited, the address service, the network of a probe,
  the file system) is the environment of a request. \<^verbatim>\<open>/api/stats\<close> hands its request back to the
  multiplexer, so serving is a \<open>partial_function\<close>: a request that is never answered has the
  value \<open>None\<close>. Paths are as the multiplexer sees them after cleaning; its redirects and the
  headers other than the content type are not modelled.
\<close>

datatype endpoint =
    Health | MetricsJson | Prometheus | Messages | MessageById
  | Report | ReportDaily | TopCalls | TopTalkers | Agents | Kpi | ResponseCodes | Cps
  | Realtime | ActiveCalls | Nodes | SlaAgents | SlaDest | SlaSrc | Carrier | GeoIp | Anomalies
  | TrendDaily | TrendHourly | Number | ExportCsv | AlertsConfig | Delete | Related | ExportCall
  | Qos | Stats | Probe | FederationHealth | FederationPush | Grafana | Static

definition routes :: "(string \<times> endpoint) list" where
  "routes =
     [(''/health'', Health), (''/api/health'', Health), (''/api/metrics'', MetricsJson),
      (''/metrics'', Prometheus), (''/api/messages'', Messages), (''/api/messages/'', MessageById),
      (''/api/report'', Report), (''/api/report/summary'', Report), (''/api/report/daily'', ReportDaily),
      (''/api/report/top-calls'', TopCalls), (''/api/report/top-talkers'', TopTalkers),
      (''/api/report/agents'', Agents), (''/api/report/kpi'', Kpi),
      (''/api/report/response-codes'', ResponseCodes), (''/api/report/cps'', Cps),
      (''/api/realtime'', Realtime), (''/api/calls/active'', ActiveCalls), (''/api/nodes'', Nodes),
      (''/api/sla/agents'', SlaAgents), (''/api/sla/destinations'', SlaDest),
      (''/api/sla/sources'', SlaSrc), (''/api/sla/carrier'', Carrier), (''/api/geoip'', GeoIp),
      (''/api/anomalies'', Anomalies), (''/api/trend/daily'', TrendDaily),
      (''/api/trend/hourly'', TrendHourly), (''/api/number'', Number), (''/api/export/csv'', ExportCsv),
      (''/api/alerts/config'', AlertsConfig), (''/api/delete'', Delete), (''/api/related'', Related),
      (''/api/export'', ExportCall), (''/api/qos'', Qos), (''/api/stats'', Stats),
      (''/api/probe'', Probe), (''/api/federation/health'', FederationHealth),
      (''/api/federation/push'', FederationPush), (''/api/grafana/'', Grafana), (''/'', Static)]"

text \<open>A pattern that ends with a slash covers the subtree; the longest pattern wins.\<close>

definition covers :: "string \<Rightarrow> string \<Rightarrow> bool" where
  "covers pat path \<longleftrightarrow> (if has_suffix pat ''/'' then has_prefix path pat else path = pat)"

definition longest_match :: "string \<Rightarrow> (string \<times> endpoint) list \<Rightarrow> (string \<times> endpoint) option" where
  "longest_match path rs = fold (\<lambda>(pat, e) best.
     if covers pat path \<and> (case best of None \<Rightarrow> True | Some (b, _) \<Rightarrow> length b < length pat)
     then Some (pat, e) else best) rs None"

definition route :: "string \<Rightarrow> endpoint" where
  "route path = (case longest_match path routes of Some (_, e) \<Rightarrow> e | None \<Rightarrow> Static)"

text \<open>Which handlers are wrapped in \<^verbatim>\<open>withRateLimit\<close> and in \<^verbatim>\<open>requireAuth\<close>.\<close>

definition rate_limited :: "endpoint \<Rightarrow> bool" where
  "rate_limited e \<longleftrightarrow> e \<noteq> Static"

definition key_required :: "endpoint \<Rightarrow> bool" where
  "key_required e \<longleftrightarrow> e \<notin> {Static, Health, FederationHealth}"

subsection \<open>State and environment\<close>

record api_env =
  ae_sec :: int
  ae_clock :: "nat \<Rightarrow> int"
  ae_scan :: "database \<Rightarrow> table_scan"
  ae_estimate :: int
  ae_method_order :: "string list"
  ae_unicode :: unicode
  ae_lookup :: "string \<Rightarrow> string option"
  ae_exec :: "nat \<Rightarrow> bool"
  ae_net :: probe_net
  ae_file_written :: bool
  ae_local_time :: "int \<Rightarrow> string"
  ae_exists :: "string \<Rightarrow> bool"
  ae_file :: "string \<Rightarrow> response"

record api_state =
  as_limiter :: api_limiter
  as_metrics :: metrics
  as_cache :: cache
  as_db :: database
  as_geo :: "string \<rightharpoonup> string"
  as_alert_file :: "string option"

definition error_json :: "string \<Rightarrow> string" where
  "error_json reason = print_doc (JObj [(''error'', JText reason)])"

definition ok_json :: string where
  "ok_json = print_doc (JObj [(''ok'', JBool True)])"

subsection \<open>Health and metrics\<close>

definition uptime_ms :: "api_env \<Rightarrow> metrics \<Rightarrow> int" where
  "uptime_ms ev m = go_div (ae_clock ev 0 - start_time m) 1000000"

definition show_bool :: "bool \<Rightarrow> string" where
  "show_bool b = (if b then ''true'' else ''false'')"

definition quoted :: "string \<Rightarrow> string" where
  "quoted s = dq # s @ [dq]"

definition field_text :: "string \<Rightarrow> string \<Rightarrow> string" where
  "field_text k v = quoted k @ '':'' @ v"

definition object_text :: "string list \<Rightarrow> string" where
  "object_text fs = ''{'' @ join '','' fs @ ''}''"

text \<open>The driver's name goes into the text as it is, not through \<^verbatim>\<open>jesc\<close>.\<close>

definition health_text :: "config \<Rightarrow> api_env \<Rightarrow> metrics \<Rightarrow> string" where
  "health_text cfg ev m = object_text
     [field_text ''ok'' ''true'', field_text ''service'' (quoted ''zaman-core''),
      field_text ''version'' (quoted version), field_text ''uptime_ms'' (show_int (uptime_ms ev m)),
      field_text ''db'' (object_text
        [field_text ''driver'' (quoted (db_driver cfg)), field_text ''writes_ok'' (show_int (sint (db_ok m))),
         field_text ''writes_err'' (show_int (sint (db_err m))),
         field_text ''writes_dropped'' (show_int (sint (db_drop m)))]),
      field_text ''retention'' (object_text
        [field_text ''days'' (show_int (retention_days cfg)),
         field_text ''cutoff_ms'' (show_int (call_cutoff_ms (ae_clock ev 1) (retention_days cfg))),
         field_text ''enabled'' (show_bool (retention_days cfg > 0))]),
      field_text ''captures'' (show_int (ae_estimate ev)),
      field_text ''channel_capacity'' ''4096'']"

definition health :: "config \<Rightarrow> api_env \<Rightarrow> request \<Rightarrow> api_state \<Rightarrow> response" where
  "health cfg ev r s =
     (if \<not> key_accepted cfg r then json_reply ok_json
      else json_reply (health_text cfg ev (as_metrics s)))"

definition counter :: "string \<Rightarrow> i64 \<Rightarrow> string \<times> json" where
  "counter k n = (k, doc_int (sint n))"

text \<open>The counters per method, in the order in which Go happens to visit the map.\<close>

definition method_counters :: "string list \<Rightarrow> metrics \<Rightarrow> (string \<times> json) list" where
  "method_counters order m = List.map_filter (\<lambda>k. map_option (counter k) (methods m k)) order"

definition metrics_doc :: "api_env \<Rightarrow> metrics \<Rightarrow> json" where
  "metrics_doc ev m = JObj
     [text_member ''service'' ''zaman-core'', text_member ''version'' version,
      number_member ''uptime_ms'' (uptime_ms ev m), counter ''msgs_total'' (msgs_total m),
      counter ''db_ok'' (db_ok m), counter ''db_err'' (db_err m), counter ''db_drop'' (db_drop m),
      counter ''requests'' (requests m), counter ''responses'' (responses m), counter ''echoes'' (echoes m),
      counter ''hep_total'' (hep_total m), counter ''hep_udp'' (hep_udp m), counter ''hep_tcp'' (hep_tcp m),
      counter ''hep_tls'' (hep_tls m), counter ''hep_err'' (hep_err m),
      counter ''hep_auth_fail'' (hep_auth_fail m), counter ''hep_deny'' (hep_deny m),
      counter ''hep_sip'' (hep_sip m), counter ''hep_rtcp'' (hep_rtcp m), counter ''hep_rtp'' (hep_rtp m),
      counter ''hep_rtcpxr'' (hep_rtcpxr m), counter ''hep_other'' (hep_other m),
      counter ''parse_err'' (parse_err m), counter ''status_2xx'' (status_2xx m),
      counter ''status_4xx_5xx'' (status_4xx5xx m),
      (''methods'', JObj (method_counters (ae_method_order ev) m))]"

definition prometheus_line :: "string \<Rightarrow> int \<Rightarrow> string" where
  "prometheus_line k n = k @ '' '' @ show_int n @ [CHR 0x0A]"

definition prometheus_text :: "api_env \<Rightarrow> metrics \<Rightarrow> string" where
  "prometheus_text ev m = concat
     [prometheus_line ''zaman_up'' 1, prometheus_line ''zaman_uptime_ms'' (uptime_ms ev m),
      prometheus_line ''zaman_messages_total'' (sint (msgs_total m)),
      prometheus_line ''zaman_db_ok'' (sint (db_ok m)), prometheus_line ''zaman_db_err'' (sint (db_err m)),
      prometheus_line ''zaman_db_dropped'' (sint (db_drop m)),
      prometheus_line ''zaman_hep_total'' (sint (hep_total m)),
      prometheus_line ''zaman_requests'' (sint (requests m)),
      prometheus_line ''zaman_responses'' (sint (responses m)),
      prometheus_line ''zaman_echoes'' (sint (echoes m))]"

subsection \<open>Messages and reports\<close>

definition report_reply :: "config \<Rightarrow> api_env \<Rightarrow> api_state \<Rightarrow> report \<Rightarrow> response" where
  "report_reply cfg ev s q = json_reply (report_text (ae_scan ev (as_db s)) (ae_clock ev) cfg q)"

text \<open>The cached text of a key if the request may be answered with it, else the report.\<close>

definition cached_reply :: "config \<Rightarrow> api_env \<Rightarrow> api_state \<Rightarrow> string \<Rightarrow> bool \<Rightarrow> report \<Rightarrow> response" where
  "cached_reply cfg ev s key usable q =
     (case cache_get (as_cache s) key of
        Some j \<Rightarrow> if usable then json_reply j else report_reply cfg ev s q
      | None \<Rightarrow> report_reply cfg ev s q)"

definition message_query :: "request \<Rightarrow> message_filter" where
  "message_query r =
     \<lparr>mf_call_id = rq_query r ''call_id'', mf_transport = rq_query r ''transport'', mf_agent = rq_query r ''agent'',
      mf_method = rq_query r ''method'',
      mf_src = (if rq_query r ''ip'' = [] then rq_query r ''src'' else rq_query r ''ip''),
      mf_from = rq_query r ''from_number'', mf_to = rq_query r ''to_number'', mf_status = rq_query r ''status'',
      mf_since = rq_query r ''since_ms'', mf_until = rq_query r ''until_ms''\<rparr>"

definition call_query :: "request \<Rightarrow> call_filter" where
  "call_query r =
     \<lparr>cf_agent = rq_query r ''agent'', cf_state = rq_query r ''state'', cf_src = rq_query r ''src'',
      cf_dst = rq_query r ''dst'', cf_from = rq_query r ''from_number'', cf_to = rq_query r ''to_number''\<rparr>"

definition no_call_filter :: "call_filter \<Rightarrow> bool" where
  "no_call_filter f \<longleftrightarrow> cf_agent f = [] \<and> cf_state f = [] \<and> cf_src f = [] \<and> cf_dst f = []
     \<and> cf_from f = [] \<and> cf_to f = []"

definition message_by_id :: "string \<Rightarrow> database \<Rightarrow> string" where
  "message_by_id path d =
     (let id_str = (if has_prefix path ''/api/messages/'' then drop 14 path else path) in
      if id_str = [] then ''null''
      else (case parse_int64 id_str of
              Inl _ \<Rightarrow> ''null''
            | Inr i \<Rightarrow>
                (case find (\<lambda>(j, _, _). j = i) (db_captures d) of
                   None \<Rightarrow> ''null''
                 | Some (_, rec, _) \<Rightarrow> print_doc (row_json (i, rec)))))"

definition realtime :: "config \<Rightarrow> api_env \<Rightarrow> request \<Rightarrow> api_state \<Rightarrow> response" where
  "realtime cfg ev r s =
     (let window = query_int r ''window'' 5; agent = rq_query r ''agent''
      in cached_reply cfg ev s ''realtime'' (window \<le> 1 \<and> agent = []) (RealtimeStats window agent))"

definition active :: "config \<Rightarrow> api_env \<Rightarrow> request \<Rightarrow> api_state \<Rightarrow> response" where
  "active cfg ev r s =
     cached_reply cfg ev s ''calls'' (no_call_filter (call_query r))
       (ActiveList (query_int r ''limit'' 50) (call_query r))"

definition number_search :: "config \<Rightarrow> api_env \<Rightarrow> request \<Rightarrow> api_state \<Rightarrow> response" where
  "number_search cfg ev r s =
     (let q = rq_query r ''q'' in
      if q = [] then json_reply (error_json ''q required'') else report_reply cfg ev s (NumberCalls q))"

subsection \<open>Exports\<close>

definition csv_line :: "api_env \<Rightarrow> (string \<times> json) list \<Rightarrow> string" where
  "csv_line ev ms =
     (let v = (\<lambda>k. show_member (member k ms));
          ts = (case member ''ts_ms'' ms of
                  Some (JLit l) \<Rightarrow> (case atoi l of Some t \<Rightarrow> ae_local_time ev (go_div t 1000) | None \<Rightarrow> [])
                | _ \<Rightarrow> [])
      in join '','' [ts, csv_field (v ''method''), v ''status'', csv_field (v ''call_id''), csv_field (v ''src''),
           csv_field (v ''dst''), csv_field (v ''agent''), csv_field (v ''transport'')] @ [CHR 0x0A])"

definition csv_rows :: "string \<Rightarrow> (string \<times> json) list list" where
  "csv_rows text =
     (case decode_all text of
        Some (JList vs) \<Rightarrow> map (\<lambda>v. case v of JObj ms \<Rightarrow> ms | _ \<Rightarrow> []) vs
      | _ \<Rightarrow> [])"

definition export_filter :: "string \<Rightarrow> string \<Rightarrow> string \<Rightarrow> message_filter" where
  "export_filter call_id agent src =
     \<lparr>mf_call_id = call_id, mf_transport = [], mf_agent = agent, mf_method = [], mf_src = src, mf_from = [],
      mf_to = [], mf_status = [], mf_since = [], mf_until = []\<rparr>"

definition export_csv :: "config \<Rightarrow> api_env \<Rightarrow> request \<Rightarrow> api_state \<Rightarrow> response" where
  "export_csv cfg ev r s =
     (let f = export_filter (rq_query r ''call_id'') (rq_query r ''agent'') (rq_query r ''ip'');
          text = report_text (ae_scan ev (as_db s)) (ae_clock ev) cfg (MessageList (query_int r ''limit'' 500) f)
      in \<lparr>rs_status = 200, rs_type = ''text/csv'',
          rs_body = ''timestamp,method,status,call_id,src,dst,agent,transport'' @ [CHR 0x0A]
            @ concat (map (csv_line ev) (csv_rows text))\<rparr>)"

definition export_call :: "config \<Rightarrow> api_env \<Rightarrow> request \<Rightarrow> api_state \<Rightarrow> response" where
  "export_call cfg ev r s = report_reply cfg ev s (MessageList 500 (export_filter (rq_query r ''call_id'') [] []))"

subsection \<open>Related calls\<close>

definition same_correlation :: "table_scan \<Rightarrow> string \<Rightarrow> string list" where
  "same_correlation sc call_id =
     (case find (\<lambda>m. cr_call_id (snd m) = call_id \<and> cr_hep_cid (snd m) \<noteq> []) (sc_captures sc) of
        None \<Rightarrow> []
      | Some m0 \<Rightarrow> map (\<lambda>m. cr_call_id (snd m))
          (filter (\<lambda>m. cr_hep_cid (snd m) = cr_hep_cid (snd m0) \<and> cr_call_id (snd m) \<noteq> call_id) (sc_captures sc)))"

definition close_in_time :: "call_row \<Rightarrow> call_row \<Rightarrow> bool" where
  "close_in_time a b \<longleftrightarrow> \<bar>first_ts b - first_ts a\<bar> < 30000"

definition same_parties :: "call_row \<Rightarrow> call_row \<Rightarrow> bool" where
  "same_parties a b \<longleftrightarrow> row_from b = row_from a \<and> row_to b = row_to a"

definition swapped_parties :: "call_row \<Rightarrow> call_row \<Rightarrow> bool" where
  "swapped_parties a b \<longleftrightarrow> row_from b = row_to a \<and> row_to b = row_from a"

definition joined_calls :: "(call_row \<Rightarrow> call_row \<Rightarrow> bool) \<Rightarrow> table_scan \<Rightarrow> string \<Rightarrow> string list" where
  "joined_calls p sc call_id =
     concat (map (\<lambda>a. if call_id_of a = call_id then
         map call_id_of (filter (\<lambda>b. call_id_of b \<noteq> call_id_of a \<and> p (snd a) (snd b)
           \<and> close_in_time (snd a) (snd b)) (sc_calls sc)) else []) (sc_calls sc))"

text \<open>\<^verbatim>\<open>SELECT DISTINCT ... LIMIT 10\<close>; a failing query contributes nothing.\<close>

definition ten_distinct :: "bool \<Rightarrow> string list \<Rightarrow> string list" where
  "ten_distinct ok ids = rows_if ok (take 10 (remdups ids))"

text \<open>The loop over the rows of one query: \<open>seen\<close> and the parts so far.\<close>

fun add_related :: "string \<Rightarrow> string list \<Rightarrow> string list \<times> (string \<times> string) list \<Rightarrow> string list \<times> (string \<times> string) list" where
  "add_related reason [] st = st"
| "add_related reason (cid # ids) (seen, parts) =
     add_related reason ids
       (if cid \<notin> set seen then (seen @ [cid], parts @ [(cid, reason)]) else (seen, parts))"

definition related_calls :: "table_scan \<Rightarrow> string \<Rightarrow> (string \<times> string) list" where
  "related_calls sc call_id =
     (let st0 = ([call_id], []);
          st1 = add_related ''hep_correlation'' (ten_distinct (sc_runs sc 0) (same_correlation sc call_id)) st0;
          st2 = add_related ''from_to_match'' (ten_distinct (sc_runs sc 1) (joined_calls same_parties sc call_id)) st1;
          st3 = add_related ''b2bua_leg'' (ten_distinct (sc_runs sc 2) (joined_calls swapped_parties sc call_id)) st2
      in snd st3)"

definition related_doc :: "(string \<times> string) list \<Rightarrow> json" where
  "related_doc parts = JList (map (\<lambda>(cid, reason). JObj [text_member ''call_id'' cid, text_member ''reason'' reason]) parts)"

definition related :: "api_env \<Rightarrow> request \<Rightarrow> api_state \<Rightarrow> response" where
  "related ev r s =
     (let call_id = rq_query r ''call_id'' in
      if call_id = [] then json_reply ''[]''
      else json_reply (print_doc (related_doc (related_calls (ae_scan ev (as_db s)) call_id))))"

definition call_qos :: "api_env \<Rightarrow> request \<Rightarrow> api_state \<Rightarrow> response" where
  "call_qos ev r s =
     (let call_id = rq_query r ''call_id''; sc = ae_scan ev (as_db s) in
      if call_id = [] then json_reply ''[]''
      else json_reply (print_doc (qos_doc (if sc_runs sc 0 then stored_qos (sc_calls sc) call_id else None))))"

subsection \<open>Handlers that change the state\<close>

definition geo_url :: "string \<Rightarrow> string" where
  "geo_url ip = ''http://ip-api.com/json/'' @ ip @ ''?fields=status,country,regionName,city,lat,lon,isp,org,as''"

definition geoip :: "api_env \<Rightarrow> request \<Rightarrow> api_state \<Rightarrow> response \<times> api_state" where
  "geoip ev r s =
     (let ip = rq_query r ''ip'' in
      if ip = [] then (json_reply (error_json ''ip required''), s)
      else (case as_geo s ip of
          Some cached \<Rightarrow> (json_reply cached, s)
        | None \<Rightarrow>
            (case ae_lookup ev (geo_url ip) of
               None \<Rightarrow> (json_reply (error_json ''lookup failed''), s)
             | Some body \<Rightarrow> (let result = take 4096 body in
                 (json_reply result, s\<lparr>as_geo := (as_geo s)(ip \<mapsto> result)\<rparr>)))))"

definition default_alert_text :: string where
  "default_alert_text = print_doc (JObj [(''webhooks'', JList []),
     (''thresholds'', JObj [number_member ''asr_min'' 70, number_member ''err_rate_max'' 10])])"

definition alerts_config :: "api_env \<Rightarrow> request \<Rightarrow> api_state \<Rightarrow> response \<times> api_state" where
  "alerts_config ev r s =
     (if rq_method r = ''GET'' then
        (case as_alert_file s of
           None \<Rightarrow> (json_reply default_alert_text, s)
         | Some data \<Rightarrow> (\<lparr>rs_status = 200, rs_type = ''application/json'', rs_body = data\<rparr>, s))
      else if rq_method r = ''POST'' then
        (json_reply ok_json,
         if ae_file_written ev then s\<lparr>as_alert_file := Some (take 8192 (rq_body r))\<rparr> else s)
      else (http_error ''method not allowed'' 405, s))"

definition exec_if :: "bool \<Rightarrow> (database \<Rightarrow> database) \<Rightarrow> database \<Rightarrow> database" where
  "exec_if ok f d = (if ok then f d else d)"

definition delete_captures :: "(capture_record \<Rightarrow> bool) \<Rightarrow> database \<Rightarrow> database" where
  "delete_captures p d = d\<lparr>db_captures := filter (\<lambda>(_, r, _). \<not> p r) (db_captures d)\<rparr>"

definition delete_call :: "string \<Rightarrow> database \<Rightarrow> database" where
  "delete_call call_id d = d\<lparr>db_calls := (\<lambda>k. if fst k = call_id then None else db_calls d k)\<rparr>"

text \<open>A \<^verbatim>\<open>before_ts\<close> that is not a positive number is answered with an empty body.\<close>

definition delete_rows :: "api_env \<Rightarrow> request \<Rightarrow> api_state \<Rightarrow> response \<times> api_state" where
  "delete_rows ev r s =
     (if rq_method r \<noteq> ''POST'' then (http_error (error_json ''method not allowed'') 405, s)
      else
        (let call_id = rq_query r ''call_id''; before = rq_query r ''before_ts'' in
         if call_id \<noteq> [] then
           (json_reply ok_json,
            s\<lparr>as_db := exec_if (ae_exec ev 1) (delete_call call_id)
                (exec_if (ae_exec ev 0) (delete_captures (\<lambda>c. cr_call_id c = call_id)) (as_db s))\<rparr>)
         else if before \<noteq> [] then
           (let ts = parse_int64_value before in
            if ts > 0 then
              (json_reply ok_json,
               s\<lparr>as_db := exec_if (ae_exec ev 1) (delete_calls_before ts)
                   (exec_if (ae_exec ev 0) (delete_captures (\<lambda>c. cr_ts_ms c < ts)) (as_db s))\<rparr>)
            else (empty_reply, s))
         else (json_reply (error_json ''call_id or before_ts required''), s)))"

definition probe :: "config \<Rightarrow> api_env \<Rightarrow> request \<Rightarrow> api_state \<Rightarrow> response \<times> api_state" where
  "probe cfg ev r s =
     (if rq_method r \<noteq> ''POST'' then (http_error (error_json ''POST required'') 405, s)
      else (let out = do_probe (ae_unicode ev) cfg (ae_net ev) (take 4096 (rq_body r)) (as_metrics s)
            in (json_reply (print_doc (po_reply out)), s\<lparr>as_metrics := po_metrics out\<rparr>)))"

text \<open>Files: a path with two dots in a row is refused, one that names no file gets the start page.\<close>

definition static_file :: "api_env \<Rightarrow> request \<Rightarrow> response" where
  "static_file ev r =
     (if contains (rq_path r) ''..'' then http_error ''forbidden'' 403
      else ae_file ev (if rq_path r \<noteq> ''/'' \<and> rq_path r \<noteq> [] \<and> \<not> ae_exists ev (rq_path r) then ''/'' else rq_path r))"

subsection \<open>Dispatch\<close>

definition fixed_reply :: "endpoint \<Rightarrow> response" where
  "fixed_reply e =
     (case e of
        FederationHealth \<Rightarrow> json_reply (print_doc (JObj [(''ok'', JBool True), (''federation'', JBool True)]))
      | FederationPush \<Rightarrow> json_reply (print_doc (JObj [(''ok'', JBool True), number_member ''accepted'' 0]))
      | _ \<Rightarrow> json_reply ok_json)"

definition trend_reply :: "config \<Rightarrow> api_env \<Rightarrow> endpoint \<Rightarrow> request \<Rightarrow> api_state \<Rightarrow> response" where
  "trend_reply cfg ev e r s =
     (case e of
        TrendDaily \<Rightarrow> report_reply cfg ev s (Trend (query_int r ''days'' 14))
      | TrendHourly \<Rightarrow> report_reply cfg ev s (HourlyTrend (query_int r ''hours'' 24))
      | _ \<Rightarrow> report_reply cfg ev s AnomalyList)"

definition reading :: "config \<Rightarrow> api_env \<Rightarrow> endpoint \<Rightarrow> request \<Rightarrow> api_state \<Rightarrow> response" where
  "reading cfg ev e r s =
     (case e of
        Health \<Rightarrow> health cfg ev r s
      | MetricsJson \<Rightarrow> json_reply (print_doc (metrics_doc ev (as_metrics s)))
      | Prometheus \<Rightarrow> \<lparr>rs_status = 200, rs_type = ''text/plain'', rs_body = prometheus_text ev (as_metrics s)\<rparr>
      | Messages \<Rightarrow> report_reply cfg ev s (MessageList (query_int r ''limit'' 300) (message_query r))
      | MessageById \<Rightarrow> json_reply (message_by_id (rq_path r) (as_db s))
      | Report \<Rightarrow> report_reply cfg ev s Summary
      | ReportDaily \<Rightarrow> report_reply cfg ev s (DailyList (query_int r ''limit'' 14))
      | TopCalls \<Rightarrow> report_reply cfg ev s (TopCallList (query_int r ''limit'' 20) (call_query r))
      | TopTalkers \<Rightarrow> cached_reply cfg ev s ''top_talkers'' (rq_query r ''limit'' = [])
                        (TopTalkerList (query_int r ''limit'' 20))
      | Agents \<Rightarrow> cached_reply cfg ev s ''agents'' True AgentList
      | Kpi \<Rightarrow> cached_reply cfg ev s ''realtime'' True (RealtimeStats 1 [])
      | ResponseCodes \<Rightarrow> report_reply cfg ev s CodeList
      | Cps \<Rightarrow> report_reply cfg ev s (Cpm (query_int r ''minutes'' 60))
      | Realtime \<Rightarrow> realtime cfg ev r s
      | ActiveCalls \<Rightarrow> active cfg ev r s
      | Nodes \<Rightarrow> cached_reply cfg ev s ''nodes'' True NodeHealth
      | SlaAgents \<Rightarrow> cached_reply cfg ev s ''sla_agents'' True AgentLevels
      | SlaDest \<Rightarrow> report_reply cfg ev s DestLevels
      | SlaSrc \<Rightarrow> report_reply cfg ev s SrcLevels
      | Carrier \<Rightarrow> report_reply cfg ev s (CarrierScore (rq_query r ''ip''))
      | Anomalies \<Rightarrow> trend_reply cfg ev e r s
      | TrendDaily \<Rightarrow> trend_reply cfg ev e r s
      | TrendHourly \<Rightarrow> trend_reply cfg ev e r s
      | Number \<Rightarrow> number_search cfg ev r s
      | ExportCsv \<Rightarrow> export_csv cfg ev r s
      | Related \<Rightarrow> related ev r s
      | ExportCall \<Rightarrow> export_call cfg ev r s
      | Qos \<Rightarrow> call_qos ev r s
      | FederationHealth \<Rightarrow> fixed_reply e
      | FederationPush \<Rightarrow> fixed_reply e
      | Grafana \<Rightarrow> fixed_reply e
      | _ \<Rightarrow> static_file ev r)"

definition handle :: "config \<Rightarrow> api_env \<Rightarrow> endpoint \<Rightarrow> request \<Rightarrow> api_state \<Rightarrow> response \<times> api_state" where
  "handle cfg ev e r s =
     (case e of
        GeoIp \<Rightarrow> geoip ev r s
      | AlertsConfig \<Rightarrow> alerts_config ev r s
      | Delete \<Rightarrow> delete_rows ev r s
      | Probe \<Rightarrow> probe cfg ev r s
      | _ \<Rightarrow> (reading cfg ev e r s, s))"

text \<open>
  The multiplexer with \<^verbatim>\<open>withRateLimit\<close> and \<^verbatim>\<open>requireAuth\<close>. The second of the limiter is that of
  the request; the handler of \<^verbatim>\<open>/api/stats\<close> calls the multiplexer again.
\<close>

partial_function (option) serve ::
  "config \<Rightarrow> api_env \<Rightarrow> request \<Rightarrow> api_state \<Rightarrow> (response \<times> api_state) option" where
  "serve cfg ev r s =
     (let e = route (rq_path r) in
      if rate_limited e then
        (case api_allow (rate_limit cfg) (api_client_ip r (trusted_proxy cfg)) (ae_sec ev) (as_limiter s) of
           (ok, rl) \<Rightarrow>
             (let s1 = s\<lparr>as_limiter := rl\<rparr> in
              if \<not> ok then Some (http_error (error_json ''rate limited'') 429, s1)
              else if key_required e \<and> \<not> key_accepted cfg r then
                Some (http_error (error_json ''unauthorized'') 401, s1)
              else if e = Stats then serve cfg ev r s1
              else Some (handle cfg ev e r s1)))
      else Some (handle cfg ev e r s))"

subsection \<open>Rate limit and key\<close>

definition stats_request :: "config \<Rightarrow> request \<Rightarrow> bool" where
  "stats_request cfg r \<longleftrightarrow> route (rq_path r) = Stats \<and> key_accepted cfg r"

lemma serve_stats_unlimited:
  "serve cfg ev r s = Some y \<Longrightarrow> \<not> (stats_request cfg r \<and> rate_limit cfg \<le> 0)"
proof (erule serve.raw_induct [rotated, where P = "\<lambda>cfg ev r s y. \<not> (stats_request cfg r \<and> rate_limit cfg \<le> 0)"],
    rule notI)
  fix f :: "config \<Rightarrow> api_env \<Rightarrow> request \<Rightarrow> api_state \<Rightarrow> (response \<times> api_state) option" and cfg ev r s y
  assume IH: "\<And>cfg ev r s y. f cfg ev r s = Some y \<Longrightarrow> \<not> (stats_request cfg r \<and> rate_limit cfg \<le> 0)"
    and body: "(let e = route (rq_path r) in
      if rate_limited e then
        (case api_allow (rate_limit cfg) (api_client_ip r (trusted_proxy cfg)) (ae_sec ev) (as_limiter s) of
           (ok, rl) \<Rightarrow>
             (let s1 = s\<lparr>as_limiter := rl\<rparr> in
              if \<not> ok then Some (http_error (error_json ''rate limited'') 429, s1)
              else if key_required e \<and> \<not> key_accepted cfg r then
                Some (http_error (error_json ''unauthorized'') 401, s1)
              else if e = Stats then f cfg ev r s1
              else Some (handle cfg ev e r s1)))
      else Some (handle cfg ev e r s)) = Some y"
    and st: "stats_request cfg r \<and> rate_limit cfg \<le> 0"
  have "f cfg ev r s = Some y"
    using body st by (simp add: Let_def stats_request_def rate_limited_def api_allow_def)
  with IH st show False by blast
qed

definition requester :: "config \<Rightarrow> request \<Rightarrow> string" where
  "requester cfg r = api_client_ip r (trusted_proxy cfg)"

lemma api_allow_used:
  "0 < maxn \<Longrightarrow> api_allow maxn ip sec rl = (ok, rl1) \<Longrightarrow>
   (ok \<longleftrightarrow> int (api_used ip sec rl) < maxn) \<and> api_used ip sec rl1 = Suc (api_used ip sec rl)"
  by (auto simp: api_allow_def api_used_def Let_def split: if_splits)

lemma serve_stats_limited:
  assumes "stats_request cfg r" "0 < rate_limit cfg"
  shows "\<exists>rl. serve cfg ev r s = Some (http_error (error_json ''rate limited'') 429, s\<lparr>as_limiter := rl\<rparr>)
     \<and> int (api_used (requester cfg r) (ae_sec ev) rl) > rate_limit cfg"
proof (induction "nat (rate_limit cfg - int (api_used (requester cfg r) (ae_sec ev) (as_limiter s)))"
    arbitrary: s rule: less_induct)
  case less
  obtain ok rl where a: "api_allow (rate_limit cfg) (requester cfg r) (ae_sec ev) (as_limiter s) = (ok, rl)"
    by (cases "api_allow (rate_limit cfg) (requester cfg r) (ae_sec ev) (as_limiter s)")
  note used = api_allow_used [OF assms(2) a]
  have eq: "serve cfg ev r s =
      (if ok then serve cfg ev r (s\<lparr>as_limiter := rl\<rparr>)
       else Some (http_error (error_json ''rate limited'') 429, s\<lparr>as_limiter := rl\<rparr>))"
    using assms(1) a by (subst serve.simps) (simp add: stats_request_def rate_limited_def key_required_def requester_def)
  show ?case
  proof (cases ok)
    case True
    then obtain rl2 where "serve cfg ev r (s\<lparr>as_limiter := rl\<rparr>)
        = Some (http_error (error_json ''rate limited'') 429, s\<lparr>as_limiter := rl2\<rparr>)"
      "int (api_used (requester cfg r) (ae_sec ev) rl2) > rate_limit cfg"
      using less [of "s\<lparr>as_limiter := rl\<rparr>"] used by auto
    with eq True show ?thesis by auto
  next
    case False
    with eq used show ?thesis by auto
  qed
qed

lemma serve_unauthorized:
  assumes "key_required (route (rq_path r))" "\<not> key_accepted cfg r"
  shows "\<exists>resp rl. serve cfg ev r s = Some (resp, s\<lparr>as_limiter := rl\<rparr>)
    \<and> (resp = http_error (error_json ''unauthorized'') 401 \<or> resp = http_error (error_json ''rate limited'') 429)"
proof -
  have "rate_limited (route (rq_path r))" using assms(1) by (auto simp: key_required_def rate_limited_def)
  then show ?thesis
    using assms by (subst serve.simps) (auto simp: Let_def split: prod.split)
qed

lemma serve_other:
  assumes "\<not> stats_request cfg r"
  shows "serve cfg ev r s \<noteq> None"
proof (cases "key_required (route (rq_path r)) \<and> \<not> key_accepted cfg r")
  case True
  then show ?thesis using serve_unauthorized [of r cfg ev s] by auto
next
  case False
  with assms have "route (rq_path r) \<noteq> Stats" by (auto simp: stats_request_def key_required_def)
  then show ?thesis by (subst serve.simps) (auto simp: Let_def split: prod.split)
qed

subsection \<open>Related calls\<close>

definition related_inv :: "string \<Rightarrow> string list \<times> (string \<times> string) list \<Rightarrow> bool" where
  "related_inv call_id st \<longleftrightarrow> fst st = call_id # map fst (snd st) \<and> distinct (fst st)"

lemma add_related_inv: "related_inv call_id st \<Longrightarrow> related_inv call_id (add_related reason ids st)"
proof (induction ids arbitrary: st)
  case (Cons cid ids)
  obtain seen parts where st: "st = (seen, parts)" by (cases st)
  have "related_inv call_id (if cid \<notin> set seen then (seen @ [cid], parts @ [(cid, reason)]) else (seen, parts))"
    using Cons.prems by (force simp: st related_inv_def)
  from Cons.IH [OF this] show ?case by (simp add: st)
qed simp

lemma add_related_length: "length (snd (add_related reason ids st)) \<le> length (snd st) + length ids"
proof (induction ids arbitrary: st)
  case (Cons cid ids)
  obtain seen parts where st: "st = (seen, parts)" by (cases st)
  show ?case
    using Cons.IH [of "if cid \<notin> set seen then (seen @ [cid], parts @ [(cid, reason)]) else (seen, parts)"]
    by (auto simp: st split: if_splits)
qed simp

lemma add_related_reason:
  "p \<in> set (snd (add_related reason ids st)) \<Longrightarrow> p \<in> set (snd st) \<or> (snd p = reason \<and> fst p \<in> set ids)"
proof (induction ids arbitrary: st)
  case (Cons cid ids)
  obtain seen parts where st: "st = (seen, parts)" by (cases st)
  show ?case
    using Cons.IH [of "if cid \<notin> set seen then (seen @ [cid], parts @ [(cid, reason)]) else (seen, parts)"] Cons.prems
    by (auto simp: st split: if_splits)
qed simp

lemma ten_distinct_bound: "length (ten_distinct ok ids) \<le> 10"
  by (simp add: ten_distinct_def rows_if_def)

lemma set_ten_distinct: "set (ten_distinct ok ids) \<subseteq> set ids"
  using set_take_subset [of 10 "remdups ids"] by (auto simp: ten_distinct_def rows_if_def)

lemma related_calls_facts:
  "distinct (call_id # map fst (related_calls sc call_id)) \<and> length (related_calls sc call_id) \<le> 30
   \<and> (\<forall>p \<in> set (related_calls sc call_id).
        (snd p = ''hep_correlation'' \<and> fst p \<in> set (same_correlation sc call_id))
      \<or> (snd p = ''from_to_match'' \<and> fst p \<in> set (joined_calls same_parties sc call_id))
      \<or> (snd p = ''b2bua_leg'' \<and> fst p \<in> set (joined_calls swapped_parties sc call_id)))"
proof -
  define i1 where "i1 = ten_distinct (sc_runs sc 0) (same_correlation sc call_id)"
  define i2 where "i2 = ten_distinct (sc_runs sc 1) (joined_calls same_parties sc call_id)"
  define i3 where "i3 = ten_distinct (sc_runs sc 2) (joined_calls swapped_parties sc call_id)"
  define s1 where "s1 = add_related ''hep_correlation'' i1 ([call_id], [])"
  define s2 where "s2 = add_related ''from_to_match'' i2 s1"
  define s3 where "s3 = add_related ''b2bua_leg'' i3 s2"
  have eq: "related_calls sc call_id = snd s3"
    by (simp add: related_calls_def Let_def i1_def i2_def i3_def s1_def s2_def s3_def)
  have "related_inv call_id s3"
    unfolding s3_def s2_def s1_def by (intro add_related_inv) (simp add: related_inv_def)
  then have "distinct (call_id # map fst (snd s3))" unfolding related_inv_def by metis
  moreover have "length (snd s3) \<le> 30"
  proof -
    have "length i1 \<le> 10" "length i2 \<le> 10" "length i3 \<le> 10"
      by (simp_all only: i1_def i2_def i3_def ten_distinct_bound)
    moreover have "length (snd s1) \<le> length i1"
      using add_related_length [of "''hep_correlation''" i1 "([call_id], [])"] by (simp add: s1_def)
    moreover have "length (snd s2) \<le> length (snd s1) + length i2" "length (snd s3) \<le> length (snd s2) + length i3"
      unfolding s2_def s3_def by (rule add_related_length)+
    ultimately show ?thesis by linarith
  qed
  moreover have "(snd p = ''hep_correlation'' \<and> fst p \<in> set i1) \<or> (snd p = ''from_to_match'' \<and> fst p \<in> set i2)
      \<or> (snd p = ''b2bua_leg'' \<and> fst p \<in> set i3)" if "p \<in> set (snd s3)" for p
  proof -
    have "p \<in> set (snd s2) \<or> (snd p = ''b2bua_leg'' \<and> fst p \<in> set i3)"
      using that unfolding s3_def by (rule add_related_reason)
    moreover have "p \<in> set (snd s1) \<or> (snd p = ''from_to_match'' \<and> fst p \<in> set i2)" if "p \<in> set (snd s2)"
      using that unfolding s2_def by (rule add_related_reason)
    moreover have "snd p = ''hep_correlation'' \<and> fst p \<in> set i1" if "p \<in> set (snd s1)"
      using that add_related_reason [of p "''hep_correlation''" i1 "([call_id], [])"] by (simp add: s1_def)
    ultimately show ?thesis by blast
  qed
  moreover have "set i1 \<subseteq> set (same_correlation sc call_id)" "set i2 \<subseteq> set (joined_calls same_parties sc call_id)"
      "set i3 \<subseteq> set (joined_calls swapped_parties sc call_id)"
    by (simp_all only: i1_def i2_def i3_def set_ten_distinct)
  ultimately show ?thesis unfolding eq by (intro conjI ballI) (simp, simp, blast)
qed

subsection \<open>The cache worker's texts\<close>

record refresh_env =
  rf_scan :: "nat \<Rightarrow> table_scan"
  rf_clock :: "nat \<Rightarrow> nat \<Rightarrow> int"

definition empty_call_filter :: call_filter where
  "empty_call_filter = \<lparr>cf_agent = [], cf_state = [], cf_src = [], cf_dst = [], cf_from = [], cf_to = []\<rparr>"

text \<open>The six builders \<^verbatim>\<open>refreshCache\<close> calls, each with its own view of the tables and the clock.\<close>

definition built_texts :: "config \<Rightarrow> refresh_env \<Rightarrow> cache_texts" where
  "built_texts cfg rf =
     (let text = (\<lambda>i q. report_text (rf_scan rf i) (rf_clock rf i) cfg q) in
      \<lparr>realtime_json = text 0 (RealtimeStats 1 []), nodes_json = text 1 NodeHealth,
       calls_json = text 2 (ActiveList 50 empty_call_filter), top_talkers_json = text 3 (TopTalkerList 20),
       agents_json = text 4 AgentList, sla_agents_json = text 5 AgentLevels\<rparr>)"

lemma report_text_not_empty: "report_text sc clock cfg q \<noteq> []"
  using doc_head [OF doc_ok_report [of sc clock cfg q], of jesc] by (auto simp: report_text_def)

lemma cache_after_refresh:
  "map_of (cache_entries b) k = Some v \<Longrightarrow> v \<noteq> [] \<Longrightarrow> cache_get (refresh_cache b c) k = Some v"
  using cache_kv.get_fold_entry [OF distinct_cache_entries [of b], of k v "\<lambda>v. v \<noteq> []" c]
  by (simp add: refresh_cache_fold map_of_SomeD)

lemma cache_worker_last:
  "cache_worker b bs c = refresh_cache (last (b # bs)) (fold refresh_cache (butlast (b # bs)) c)"
proof (induction bs rule: rev_induct)
  case (snoc x xs)
  then show ?case by (simp add: cache_worker_def butlast_append)
qed (simp add: cache_worker_def)

lemma cached_texts:
  assumes "c = cache_worker (built_texts cfg rf) (map (built_texts cfg) rfs) c0" "l = last (rf # rfs)"
  shows "cache_get c ''realtime'' = Some (report_text (rf_scan l 0) (rf_clock l 0) cfg (RealtimeStats 1 []))"
    "cache_get c ''nodes'' = Some (report_text (rf_scan l 1) (rf_clock l 1) cfg NodeHealth)"
    "cache_get c ''calls'' = Some (report_text (rf_scan l 2) (rf_clock l 2) cfg (ActiveList 50 empty_call_filter))"
    "cache_get c ''top_talkers'' = Some (report_text (rf_scan l 3) (rf_clock l 3) cfg (TopTalkerList 20))"
    "cache_get c ''agents'' = Some (report_text (rf_scan l 4) (rf_clock l 4) cfg AgentList)"
    "cache_get c ''sla_agents'' = Some (report_text (rf_scan l 5) (rf_clock l 5) cfg AgentLevels)"
proof -
  have "last (built_texts cfg rf # map (built_texts cfg) rfs) = built_texts cfg l"
    using assms(2) by (simp add: last_map)
  then have c: "c = refresh_cache (built_texts cfg l)
      (fold refresh_cache (butlast (built_texts cfg rf # map (built_texts cfg) rfs)) c0)"
    using assms(1) by (simp only: cache_worker_last)
  show "cache_get c ''realtime'' = Some (report_text (rf_scan l 0) (rf_clock l 0) cfg (RealtimeStats 1 []))"
    "cache_get c ''nodes'' = Some (report_text (rf_scan l 1) (rf_clock l 1) cfg NodeHealth)"
    "cache_get c ''calls'' = Some (report_text (rf_scan l 2) (rf_clock l 2) cfg (ActiveList 50 empty_call_filter))"
    "cache_get c ''top_talkers'' = Some (report_text (rf_scan l 3) (rf_clock l 3) cfg (TopTalkerList 20))"
    "cache_get c ''agents'' = Some (report_text (rf_scan l 4) (rf_clock l 4) cfg AgentList)"
    "cache_get c ''sla_agents'' = Some (report_text (rf_scan l 5) (rf_clock l 5) cfg AgentLevels)"
    unfolding c
    by (rule cache_after_refresh;
        simp add: cache_entries_def built_texts_def Let_def report_text_not_empty)+
qed

subsection \<open>Deleting a call\<close>

lemma delete_by_id:
  assumes "rq_method r = ''POST''" "rq_query r ''call_id'' = call_id" "call_id \<noteq> []"
    and "ae_exec ev 0" "ae_exec ev 1"
  shows "handle cfg ev Delete r s = (json_reply ok_json,
    s\<lparr>as_db := delete_call call_id (delete_captures (\<lambda>c. cr_call_id c = call_id) (as_db s))\<rparr>)"
  using assms by (simp add: handle_def delete_rows_def exec_if_def)

lemma scan_captures: "scan_of d sc \<Longrightarrow> set (sc_captures sc) = (\<lambda>(i, r, _). (i, r)) ` set (db_captures d)"
  unfolding scan_of_def by (metis mset_eq_setD set_map)

lemma scan_calls: "scan_of d sc \<Longrightarrow> (k, c) \<in> set (sc_calls sc) \<longleftrightarrow> db_calls d k = Some c"
  unfolding scan_of_def by (metis map_of_SomeD map_of_is_SomeI)

subsection \<open>Properties\<close>

text \<open>C3: a request without the configured key is never served by a protected handler: it is answered 401, or
  429 when the client is over its limit, and nothing but the limiter's own count changes.\<close>

theorem no_answer_without_key:
  "key_required (route (rq_path r)) \<Longrightarrow> \<not> key_accepted cfg r \<Longrightarrow>
   \<exists>resp rl. serve cfg ev r s = Some (resp, s\<lparr>as_limiter := rl\<rparr>)
     \<and> (resp = http_error (error_json ''unauthorized'') 401 \<or> resp = http_error (error_json ''rate limited'') 429)"
  by (rule serve_unauthorized)

definition plain_request :: "string \<Rightarrow> string \<Rightarrow> request" where
  "plain_request method path = \<lparr>rq_method = method, rq_path = path, rq_header = (\<lambda>_. []), rq_query = (\<lambda>_. []),
     rq_cookie = (\<lambda>_. None), rq_form = (\<lambda>_. []), rq_remote = ''10.0.0.9:4711'', rq_body = []\<rparr>"

definition keyed_config :: config where
  "keyed_config = (load_config (\<lambda>_. []) [])\<lparr>api_key := ''k''\<rparr>"

lemma route_delete: "route ''/api/delete'' = Delete"
  by (simp add: route_def longest_match_def routes_def covers_def has_suffix_def)

lemma route_stats: "route ''/api/stats'' = Stats"
  by (simp add: route_def longest_match_def routes_def covers_def has_suffix_def)

theorem no_answer_without_key_witness:
  "\<forall>ev s. \<exists>resp rl. serve keyed_config ev (plain_request ''POST'' ''/api/delete'') s = Some (resp, s\<lparr>as_limiter := rl\<rparr>)
     \<and> rs_status resp \<in> {401, 429}"
proof (intro allI)
  fix ev s
  have "\<not> key_accepted keyed_config (plain_request ''POST'' ''/api/delete'')"
    by (simp add: key_accepted_def keyed_config_def plain_request_def request_key_def bearer_def)
  moreover have "key_required (route (rq_path (plain_request ''POST'' ''/api/delete'')))"
    by (simp add: plain_request_def route_delete key_required_def)
  ultimately show "\<exists>resp rl. serve keyed_config ev (plain_request ''POST'' ''/api/delete'') s
      = Some (resp, s\<lparr>as_limiter := rl\<rparr>) \<and> rs_status resp \<in> {401, 429}"
    using no_answer_without_key [of "plain_request ''POST'' ''/api/delete''" keyed_config ev s]
    by (auto simp: http_error_def)
qed

text \<open>C13: every request is answered, except one for the statistics with an accepted key while the rate limit
  is switched off: that handler calls the multiplexer on the same request forever.\<close>

theorem request_answered_iff:
  "serve cfg ev r s \<noteq> None
   \<longleftrightarrow> \<not> (route (rq_path r) = Stats \<and> key_accepted cfg r \<and> rate_limit cfg \<le> 0)"
proof (cases "stats_request cfg r")
  case True
  then have "serve cfg ev r s \<noteq> None" if "0 < rate_limit cfg"
    using serve_stats_limited [OF True that, of ev s] by auto
  moreover have "serve cfg ev r s = None" if "rate_limit cfg \<le> 0"
    using serve_stats_unlimited [of cfg ev r s] True that by (cases "serve cfg ev r s") auto
  ultimately show ?thesis using True by (cases "rate_limit cfg \<le> 0") (auto simp: stats_request_def)
next
  case False
  then show ?thesis using serve_other [of cfg r ev s] by (auto simp: stats_request_def)
qed

text \<open>C38: with a rate limit, a request for the statistics is always answered 429, and leaves its sender with
  no requests for the rest of the second.\<close>

theorem stats_request_spends_allowance:
  "route (rq_path r) = Stats \<Longrightarrow> key_accepted cfg r \<Longrightarrow> 0 < rate_limit cfg \<Longrightarrow>
   \<exists>rl. serve cfg ev r s = Some (http_error (error_json ''rate limited'') 429, s\<lparr>as_limiter := rl\<rparr>)
     \<and> \<not> fst (api_allow (rate_limit cfg) (requester cfg r) (ae_sec ev) rl)"
proof -
  assume "route (rq_path r) = Stats" "key_accepted cfg r" and lim: "0 < rate_limit cfg"
  then have "stats_request cfg r" by (simp add: stats_request_def)
  then obtain rl where "serve cfg ev r s = Some (http_error (error_json ''rate limited'') 429, s\<lparr>as_limiter := rl\<rparr>)"
    "int (api_used (requester cfg r) (ae_sec ev) rl) > rate_limit cfg"
    using serve_stats_limited lim by blast
  moreover from this(2) have "\<not> fst (api_allow (rate_limit cfg) (requester cfg r) (ae_sec ev) rl)"
    using api_allow_used [OF lim, of "requester cfg r" "ae_sec ev" rl]
    by (cases "api_allow (rate_limit cfg) (requester cfg r) (ae_sec ev) rl") auto
  ultimately show ?thesis by blast
qed

theorem stats_request_spends_allowance_witness:
  "\<forall>ev s. map_option (rs_status \<circ> fst) (serve (load_config (\<lambda>_. []) []) ev (plain_request ''GET'' ''/api/stats'') s) = Some 429"
proof (intro allI)
  fix ev s
  have "key_accepted (load_config (\<lambda>_. []) []) (plain_request ''GET'' ''/api/stats'')"
      "0 < rate_limit (load_config (\<lambda>_. []) [])"
    by (simp_all add: key_accepted_def load_config_def)
  then show "map_option (rs_status \<circ> fst) (serve (load_config (\<lambda>_. []) []) ev (plain_request ''GET'' ''/api/stats'') s) = Some 429"
    using stats_request_spends_allowance [of "plain_request ''GET'' ''/api/stats''" "load_config (\<lambda>_. []) []" ev s]
    by (auto simp: plain_request_def route_stats http_error_def)
qed

text \<open>C22: deleting a call over the API, when both statements run, removes its messages and its summaries and
  nothing else: no report of that call finds a message afterwards, and other messages and calls stay.\<close>

theorem deleted_call_is_gone:
  assumes "rq_method r = ''POST''" "rq_query r ''call_id'' = call_id" "call_id \<noteq> []" "\<not> has_prefix call_id ''/''"
    and "ae_exec ev 0" "ae_exec ev 1"
    and "handle cfg ev Delete r s = (resp, s')" "scan_of (as_db s') sc"
  shows "resp = json_reply ok_json \<and> found_messages sc limit (export_filter call_id [] []) = []
    \<and> (\<forall>kc \<in> set (sc_calls sc). call_id_of kc \<noteq> call_id)
    \<and> (\<forall>i rec raw. cr_call_id rec \<noteq> call_id \<longrightarrow>
         (i, rec, raw) \<in> set (db_captures (as_db s')) \<longleftrightarrow> (i, rec, raw) \<in> set (db_captures (as_db s)))
    \<and> (\<forall>k. fst k \<noteq> call_id \<longrightarrow> db_calls (as_db s') k = db_calls (as_db s) k)"
proof -
  let ?d = "delete_call call_id (delete_captures (\<lambda>c. cr_call_id c = call_id) (as_db s))"
  have s': "s' = s\<lparr>as_db := ?d\<rparr>" "resp = json_reply ok_json"
    using delete_by_id [OF assms(1,2,3,5,6), of cfg s] assms(7) by simp_all
  have "cr_call_id (snd m) \<noteq> call_id" if "m \<in> set (sc_captures sc)" for m
    using that scan_captures [OF assms(8)] by (auto simp: s' delete_call_def delete_captures_def)
  then have "filter (message_matches sc (export_filter call_id [] [])) (sc_captures sc) = []"
    using assms(3,4) by (auto simp: filter_empty_conv message_matches_def export_filter_def matches_id_def Let_def)
  then have "found_messages sc limit (export_filter call_id [] []) = []"
    by (simp add: found_messages_def rows_if_def newest_first_def descending_def numeric_filter_def export_filter_def
        all_digits_def)
  moreover have "call_id_of kc \<noteq> call_id" if "kc \<in> set (sc_calls sc)" for kc
  proof -
    obtain k c where kc: "kc = (k, c)" by (cases kc)
    with that have "db_calls ?d k = Some c" using scan_calls [OF assms(8)] by (simp add: s')
    then show ?thesis by (auto simp: kc call_id_of_def delete_call_def split: if_splits)
  qed
  ultimately show ?thesis by (auto simp: s' delete_call_def delete_captures_def)
qed

definition quiet_env :: api_env where
  "quiet_env = \<lparr>ae_sec = 0, ae_clock = (\<lambda>_. 0),
     ae_scan = (\<lambda>d. one_message\<lparr>sc_captures := map (\<lambda>(i, r, _). (i, r)) (db_captures d)\<rparr>), ae_estimate = 0,
     ae_method_order = [], ae_unicode = ascii_tables, ae_lookup = (\<lambda>_. None),
     ae_exec = (\<lambda>_. True), ae_net = \<lparr>pn_dial = (\<lambda>_ _. Inl []), pn_reply = (\<lambda>_ _. None), pn_nano = (\<lambda>_. 0), pn_rtt = 0\<rparr>,
     ae_file_written = True, ae_local_time = (\<lambda>_. []), ae_exists = (\<lambda>_. False), ae_file = (\<lambda>_. empty_reply)\<rparr>"

definition one_row_state :: api_state where
  "one_row_state = \<lparr>as_limiter = new_api_limiter, as_metrics = new_metrics 0, as_cache = new_cache,
     as_db = empty_db\<lparr>db_captures := [(1, zero_record\<lparr>cr_call_id := ''c''\<rparr>, []), (2, zero_record, [])]\<rparr>,
     as_geo = Map.empty, as_alert_file = None\<rparr>"

theorem deleted_call_is_gone_witness:
  "found_messages (one_message\<lparr>sc_captures := [(2, zero_record)]\<rparr>) 10 (export_filter ''c'' [] []) = []"
proof -
  let ?r = "(plain_request ''POST'' ''/api/delete'')\<lparr>rq_query := (\<lambda>k. if k = ''call_id'' then ''c'' else [])\<rparr>"
  let ?s = "one_row_state\<lparr>as_db := delete_call ''c'' (delete_captures (\<lambda>c. cr_call_id c = ''c'') (as_db one_row_state))\<rparr>"
  have r: "rq_method ?r = ''POST''" "rq_query ?r ''call_id'' = ''c''" "ae_exec quiet_env 0" "ae_exec quiet_env 1"
    by (simp_all add: plain_request_def quiet_env_def)
  have "scan_of (as_db ?s) (one_message\<lparr>sc_captures := [(2, zero_record)]\<rparr>)"
    by (auto simp: scan_of_def one_message_def one_row_state_def delete_call_def delete_captures_def empty_db_def
        zero_record_def)
  from deleted_call_is_gone [OF r(1,2) _ _ r(3,4) delete_by_id [OF r(1,2) _ r(3,4)] this, where limit = 10]
  show ?thesis by simp
qed

text \<open>The related calls of a call are distinct, never the call itself, at most thirty, and each is there
  for the reason it shows.\<close>

theorem related_calls_are_sound:
  "distinct (call_id # map fst (related_calls sc call_id)) \<and> length (related_calls sc call_id) \<le> 30
   \<and> (\<forall>p \<in> set (related_calls sc call_id).
        (snd p = ''hep_correlation'' \<and> fst p \<in> set (same_correlation sc call_id))
      \<or> (snd p = ''from_to_match'' \<and> fst p \<in> set (joined_calls same_parties sc call_id))
      \<or> (snd p = ''b2bua_leg'' \<and> fst p \<in> set (joined_calls swapped_parties sc call_id)))"
  by (rule related_calls_facts)

theorem related_calls_are_sound_witness:
  "distinct (''c'' # map fst (related_calls one_message ''c''))"
  using related_calls_are_sound [of "''c''" one_message] by blast



end
