(* ===== verification/Structs.thy ===== *)
theory Structs
  imports Document "HOL-Library.List_Lexorder" "HOL-Library.Char_ord"
begin

text \<open>
  Reading JSON into Go values as \<^verbatim>\<open>encoding/json\<close> does it: into the fields of a structure (members
  in their order, names compared without regard to case, a value of the wrong type skipped and
  reported at the end) and into maps, and printing maps, whose keys come out in byte order. A
  decoded document holds valid UTF-8 only.
\<close>

subsection \<open>Structures\<close>

type_synonym 'a setter = "json \<Rightarrow> 'a \<Rightarrow> 'a option"

definition text_setter :: "((string \<Rightarrow> string) \<Rightarrow> 'a \<Rightarrow> 'a) \<Rightarrow> 'a setter" where
  "text_setter upd v x = (case v of JText s \<Rightarrow> Some (upd (\<lambda>_. s) x) | JNull \<Rightarrow> Some x | _ \<Rightarrow> None)"

definition int_setter :: "((int \<Rightarrow> int) \<Rightarrow> 'a \<Rightarrow> 'a) \<Rightarrow> 'a setter" where
  "int_setter upd v x =
     (case v of
        JLit l \<Rightarrow> (case parse_int64 l of Inr n \<Rightarrow> Some (upd (\<lambda>_. n) x) | Inl _ \<Rightarrow> None)
      | JNull \<Rightarrow> Some x
      | _ \<Rightarrow> None)"

fun set_fields ::
  "unicode \<Rightarrow> (string \<times> 'a setter) list \<Rightarrow> (string \<times> json) list \<Rightarrow> bool \<times> 'a \<Rightarrow> bool \<times> 'a" where
  "set_fields u fs [] r = r"
| "set_fields u fs (m # ms) (ok, x) = set_fields u fs ms
     (case find (\<lambda>f. equal_fold u (fst m) (fst f)) fs of
        None \<Rightarrow> (ok, x)
      | Some f \<Rightarrow> (case snd f (snd m) x of Some y \<Rightarrow> (ok, y) | None \<Rightarrow> (False, x)))"

definition read_struct :: "unicode \<Rightarrow> (string \<times> 'a setter) list \<Rightarrow> 'a \<Rightarrow> json \<Rightarrow> bool \<times> 'a" where
  "read_struct u fs x v =
     (case v of JObj ms \<Rightarrow> set_fields u fs ms (True, x) | JNull \<Rightarrow> (True, x) | _ \<Rightarrow> (False, x))"

text \<open>\<^verbatim>\<open>json.NewDecoder(r.Body).Decode(&body)\<close>, an error as \<open>None\<close>.\<close>

definition decode_body :: "unicode \<Rightarrow> (string \<times> 'a setter) list \<Rightarrow> 'a \<Rightarrow> string \<Rightarrow> 'a option" where
  "decode_body u fs x body =
     (case decode_first body of
        None \<Rightarrow> None
      | Some v \<Rightarrow> (case read_struct u fs x v of (ok, y) \<Rightarrow> if ok then Some y else None))"

subsection \<open>Maps\<close>

text \<open>
  A \<^verbatim>\<open>map[string]string\<close> as the list of its entries, one for each key. An entry of the wrong
  type is stored as the empty string and reported. \<^verbatim>\<open>null\<close> is the nil map, \<open>None\<close> here.
\<close>

definition put_entry :: "string \<Rightarrow> 'v \<Rightarrow> (string \<times> 'v) list \<Rightarrow> (string \<times> 'v) list" where
  "put_entry k v m = filter (\<lambda>e. fst e \<noteq> k) m @ [(k, v)]"

definition drop_entry :: "string \<Rightarrow> (string \<times> 'v) list \<Rightarrow> (string \<times> 'v) list" where
  "drop_entry k m = filter (\<lambda>e. fst e \<noteq> k) m"

definition entry_text :: "json \<Rightarrow> string" where
  "entry_text v = (case v of JText s \<Rightarrow> s | _ \<Rightarrow> [])"

definition entry_ok :: "json \<Rightarrow> bool" where
  "entry_ok v \<longleftrightarrow> (case v of JText _ \<Rightarrow> True | JNull \<Rightarrow> True | _ \<Rightarrow> False)"

type_synonym text_map = "(string \<times> string) list"

definition read_map :: "json \<Rightarrow> text_map option \<Rightarrow> bool \<times> text_map option" where
  "read_map v old =
     (case v of
        JObj ms \<Rightarrow> (list_all (\<lambda>m. entry_ok (snd m)) ms,
          Some (fold (\<lambda>m. put_entry (fst m) (entry_text (snd m))) ms (case old of Some t \<Rightarrow> t | None \<Rightarrow> [])))
      | JNull \<Rightarrow> (True, None)
      | _ \<Rightarrow> (False, old))"

definition sorted_entries :: "(string \<times> 'v) list \<Rightarrow> (string \<times> 'v) list" where
  "sorted_entries m = sort_key fst m"

definition map_json :: "text_map option \<Rightarrow> json" where
  "map_json m = (case m of None \<Rightarrow> JNull | Some t \<Rightarrow> JObj (map (\<lambda>e. (fst e, JText (snd e))) (sorted_entries t)))"

subsection \<open>Decoded documents hold valid text\<close>

lemma escape_rune_small: "escape_rune e = Some r \<Longrightarrow> valid_rune r"
  by (auto simp: escape_rune_def valid_rune_def split: if_splits)

lemma hex_val_less: "hex_val c = Some d \<Longrightarrow> d < 16"
  by (auto simp: hex_val_def Let_def split: if_splits)

lemma get_u4_less: "get_u4 s = Some (r, t) \<Longrightarrow> r < 0x10000"
proof -
  assume "get_u4 s = Some (r, t)"
  then show ?thesis
    by (auto simp: get_u4_def split: list.splits option.splits dest!: hex_val_less)
qed

lemma join_surrogates_valid:
  assumes "join_surrogates r t = JRune r' t'" "r < 0x10000"
  shows "valid_rune r'"
proof -
  have pair: "valid_rune ((r - 0xD800) * 1024 + (x - 0xDC00) + 0x10000)"
    if "r \<le> 0xDBFF" "x \<le> 0xDFFF" for x :: nat
  proof -
    have "r - 0xD800 \<le> 0x3FF" "x - 0xDC00 \<le> 0x3FF" using that by linarith+
    then show ?thesis by (simp add: valid_rune_def)
  qed
  have "valid_rune r" if "r < 0xD800 \<or> 0xDFFF < r" using that assms(2) by (auto simp: valid_rune_def)
  with assms(1) show ?thesis
    unfolding join_surrogates_def
    by (auto simp del: One_nat_def simp only: jtok.inject jtok.distinct jtok.simps intro!: pair valid_rune_error
        split: if_splits list.splits option.splits prod.splits)
qed

lemma jstep_valid: "jstep s = JRune r t \<Longrightarrow> valid_rune r"
  by (auto simp: jstep_def decode_rune_valid escape_rune_small dest: get_u4_less join_surrogates_valid
      split: list.splits option.splits if_splits)

lemma sanitize_runes: "list_all valid_rune rs \<Longrightarrow> sanitize (concat (map encode_rune rs)) = concat (map encode_rune rs)"
  by (simp add: sanitize_def runes_concat_encode)

lemma scan_str_runes_of: "scan_str s = Some (x, r) \<Longrightarrow> \<exists>rs. list_all valid_rune rs \<and> x = concat (map encode_rune rs)"
proof (induction s arbitrary: x r rule: scan_str.induct)
  case (1 s)
  show ?case
  proof (cases "jstep s")
    case (JEnd t)
    with 1(2) show ?thesis by (intro exI [of _ "[]"]) (simp add: scan_str.simps [of s])
  next
    case (JRune c t)
    then obtain y where y: "scan_str t = Some (y, r)" "x = encode_rune c @ y"
      using 1(2) by (auto simp: scan_str.simps [of s])
    then obtain rs where "list_all valid_rune rs" "y = concat (map encode_rune rs)"
      using 1(1) [OF JRune] by blast
    then show ?thesis using jstep_valid [OF JRune] y by (intro exI [of _ "c # rs"]) simp
  next
    case JBad
    with 1(2) show ?thesis by (simp add: scan_str.simps [of s])
  qed
qed

lemma scan_str_clean: "scan_str s = Some (x, r) \<Longrightarrow> sanitize x = x"
  using scan_str_runes_of sanitize_runes by blast

lemma read_key_clean: "read_key s = Some (k, r) \<Longrightarrow> sanitize k = k"
  by (auto simp: read_key_def split: list.splits if_splits option.splits prod.splits dest: scan_str_clean)

lemma read_clean:
  "read_value n s = Some (v, r) \<Longrightarrow> clean_doc v = v"
  "read_items n s = Some (vs, r) \<Longrightarrow> map clean_doc vs = vs"
  "read_members n s = Some (ms, r) \<Longrightarrow> map (\<lambda>m. (sanitize (fst m), clean_doc (snd m))) ms = ms"
proof (induction n s and n s and n s arbitrary: v r and vs r and ms r
    rule: read_value_read_items_read_members.induct)
  case (2 n s)
  then show ?case
    by (auto simp: read_atom_def Let_def split: list.splits if_splits dest: scan_str_clean)
next
  case (4 n s)
  then show ?case by (auto split: list.splits option.splits if_splits)
next
  case (6 n s)
  from 6 show ?case by (auto split: list.splits option.splits if_splits dest!: read_key_clean)
qed simp_all

lemma decode_all_clean: "decode_all s = Some v \<Longrightarrow> clean_doc v = v"
  by (auto simp: decode_all_def split: option.splits if_splits dest: read_clean(1))

lemma decode_first_clean: "decode_first s = Some v \<Longrightarrow> clean_doc v = v"
  by (auto simp: decode_first_def dest: read_clean(1))

subsection \<open>What every setter keeps\<close>

definition setters_keep :: "('a \<Rightarrow> bool) \<Rightarrow> (string \<times> 'a setter) list \<Rightarrow> bool" where
  "setters_keep P fs \<longleftrightarrow> (\<forall>f \<in> set fs. \<forall>v x y. clean_doc v = v \<longrightarrow> P x \<longrightarrow> snd f v x = Some y \<longrightarrow> P y)"

lemma set_fields_keep:
  "setters_keep P fs \<Longrightarrow> \<forall>m \<in> set ms. clean_doc (snd m) = snd m \<Longrightarrow> P x \<Longrightarrow> P (snd (set_fields u fs ms (ok, x)))"
proof (induction ms arbitrary: ok x)
  case (Cons m ms)
  show ?case
  proof (cases "find (\<lambda>f. equal_fold u (fst m) (fst f)) fs")
    case (Some f)
    then have "f \<in> set fs" by (auto simp: find_Some_iff)
    then have "P y" if "snd f (snd m) x = Some y" for y
      using Cons.prems that by (auto simp: setters_keep_def)
    then show ?thesis using Cons Some by (auto split: option.splits)
  qed (use Cons in simp)
qed simp

lemma clean_members: "clean_doc (JObj ms) = JObj ms \<Longrightarrow> \<forall>m \<in> set ms. clean_doc (snd m) = snd m"
proof
  fix m
  assume "clean_doc (JObj ms) = JObj ms" "m \<in> set ms"
  then have "(sanitize (fst m), clean_doc (snd m)) = m"
    by (metis (no_types, lifting) clean_doc.simps(3) json.inject(5) map_eq_conv map_ident)
  then show "clean_doc (snd m) = snd m" by (metis snd_conv)
qed

lemma clean_items: "clean_doc (JList vs) = JList vs \<Longrightarrow> \<forall>v \<in> set vs. clean_doc v = v"
  by (metis clean_doc.simps(2) json.inject(4) map_eq_conv map_ident)

lemma read_struct_keeps:
  "setters_keep P fs \<Longrightarrow> clean_doc v = v \<Longrightarrow> P x \<Longrightarrow> P (snd (read_struct u fs x v))"
proof (cases v)
  case (JObj ms)
  moreover assume "setters_keep P fs" "clean_doc v = v" "P x"
  ultimately show ?thesis
    using set_fields_keep [of P fs ms x u True] clean_members [of ms] by (simp add: read_struct_def del: clean_doc.simps)
qed (simp_all add: read_struct_def)

lemma decode_body_keeps:
  "setters_keep P fs \<Longrightarrow> P x \<Longrightarrow> decode_body u fs x body = Some y \<Longrightarrow> P y"
proof -
  assume keep: "setters_keep P fs" "P x" and "decode_body u fs x body = Some y"
  then obtain v where "decode_first body = Some v" "snd (read_struct u fs x v) = y"
    by (auto simp: decode_body_def split: option.splits prod.splits if_splits)
  then show "P y" using read_struct_keeps [OF keep(1) decode_first_clean keep(2)] by blast
qed

subsection \<open>Maps are read back\<close>

lemma map_of_put_entry: "map_of (put_entry k v m) = (map_of m)(k \<mapsto> v)"
proof
  fix x
  show "map_of (put_entry k v m) x = ((map_of m)(k \<mapsto> v)) x"
    by (induction m) (auto simp: put_entry_def map_add_def split: option.splits)
qed

lemma map_of_drop_entry: "map_of (drop_entry k m) = (map_of m)(k := None)"
proof
  fix x
  show "map_of (drop_entry k m) x = ((map_of m)(k := None)) x"
    by (induction m) (auto simp: drop_entry_def)
qed

lemma distinct_entries:
  "distinct (map fst m) \<Longrightarrow> distinct (map fst (put_entry k v m))"
  "distinct (map fst m) \<Longrightarrow> distinct (map fst (drop_entry k m))"
  by (auto simp: put_entry_def drop_entry_def distinct_map inj_on_def)

lemma fold_put_entries:
  "distinct (map fst acc @ map fst ms) \<Longrightarrow>
   fold (\<lambda>m. put_entry (fst m) (f (snd m))) ms acc = acc @ map (\<lambda>m. (fst m, f (snd m))) ms"
proof (induction ms arbitrary: acc)
  case (Cons m ms)
  then have "fst m \<notin> fst ` set acc" by auto
  then have "filter (\<lambda>e. fst e \<noteq> fst m) acc = acc" by (force simp: filter_id_conv)
  then have "put_entry (fst m) (f (snd m)) acc = acc @ [(fst m, f (snd m))]" by (simp add: put_entry_def)
  with Cons show ?case by simp
qed simp

definition clean_entries :: "text_map \<Rightarrow> bool" where
  "clean_entries m \<longleftrightarrow> distinct (map fst m) \<and> list_all (\<lambda>e. sanitize (fst e) = fst e \<and> sanitize (snd e) = snd e) m"

lemma set_sorted_entries [simp]: "set (sorted_entries m) = set m"
  by (simp add: sorted_entries_def)

lemma distinct_sorted_entries: "distinct (map fst m) \<Longrightarrow> distinct (map fst (sorted_entries m))"
  by (simp add: sorted_entries_def distinct_map)

lemma map_of_sorted_entries: "distinct (map fst m) \<Longrightarrow> map_of (sorted_entries m) = map_of m"
proof
  fix k
  assume "distinct (map fst m)"
  then have "map_of (sorted_entries m) k = Some v \<longleftrightarrow> map_of m k = Some v" for v
    by (simp add: distinct_sorted_entries map_of_eq_Some_iff)
  then show "map_of (sorted_entries m) k = map_of m k" by (metis not_None_eq)
qed

lemma map_json_ok: "doc_ok (map_json m)"
  by (auto simp: map_json_def list_all_iff split: option.split)

lemma decode_map_json:
  assumes "clean_entries m"
  shows "decode_all (marshal (map_json (Some m))) = Some (map_json (Some m))"
proof -
  have "clean_doc (map_json (Some m)) = map_json (Some m)"
    using assms by (auto simp: map_json_def clean_entries_def list_all_iff)
  then show ?thesis using decode_marshalled [OF map_json_ok, of "Some m"] by simp
qed

lemma read_map_json:
  assumes "clean_entries m"
  shows "read_map (map_json (Some m)) (Some []) = (True, Some (sorted_entries m))"
proof -
  let ?ms = "map (\<lambda>e. (fst e, JText (snd e))) (sorted_entries m)"
  have "distinct (map fst [] @ map fst ?ms)"
    using assms distinct_sorted_entries [of m] by (simp add: clean_entries_def comp_def)
  note fold_put_entries [OF this, of entry_text]
  then show ?thesis by (simp add: read_map_def map_json_def entry_text_def entry_ok_def list_all_iff comp_def)
qed

lemma clean_put_entry:
  "clean_entries m \<Longrightarrow> sanitize k = k \<Longrightarrow> sanitize v = v \<Longrightarrow> clean_entries (put_entry k v m)"
  using distinct_entries(1) [of m k v] by (auto simp: clean_entries_def list_all_iff put_entry_def)

lemma clean_drop_entry: "clean_entries m \<Longrightarrow> clean_entries (drop_entry k m)"
  using distinct_entries(2) [of m k] by (auto simp: clean_entries_def list_all_iff drop_entry_def)

lemma read_map_clean:
  assumes "read_map v old = (ok, Some m)" "clean_doc v = v" "\<And>t. old = Some t \<Longrightarrow> clean_entries t"
  shows "clean_entries m"
proof -
  have keep: "clean_entries (fold (\<lambda>m. put_entry (fst m) (entry_text (snd m))) ms t)"
    if "\<forall>m \<in> set ms. sanitize (fst m) = fst m \<and> clean_doc (snd m) = snd m" "clean_entries t" for ms t
    using that
  proof (induction ms arbitrary: t)
    case (Cons a ms)
    have "sanitize (entry_text (snd a)) = entry_text (snd a)"
      using Cons.prems(1) by (auto simp: entry_text_def sanitize_ascii split: json.splits)
    with Cons show ?case by (simp add: clean_put_entry)
  qed simp
  have "\<forall>m \<in> set ms. sanitize (fst m) = fst m \<and> clean_doc (snd m) = snd m" if "v = JObj ms" for ms
  proof
    fix m assume "m \<in> set ms"
    then have "(sanitize (fst m), clean_doc (snd m)) = m"
      using assms(2) that by (metis (no_types, lifting) clean_doc.simps(3) json.inject(5) map_eq_conv map_ident)
    then show "sanitize (fst m) = fst m \<and> clean_doc (snd m) = snd m" by (metis fst_conv snd_conv)
  qed
  moreover have "clean_entries []" by (simp add: clean_entries_def)
  ultimately show ?thesis
    using assms keep by (auto simp: read_map_def split: json.splits option.splits)
qed

end
