(* ===== verification/Sha256.thy ===== *)
theory Sha256
  imports Json
begin

text \<open>
  The digests of the web server's tokens and passwords (\<^verbatim>\<open>web/main.go\<close> uses \<^verbatim>\<open>crypto/sha256\<close>,
  \<^verbatim>\<open>crypto/hmac\<close> and \<^verbatim>\<open>encoding/hex\<close>): SHA-256 on 32-bit words and HMAC as the standards
  (FIPS 180-4, FIPS 198-1) give them.
\<close>

text \<open>The round constants: the first 32 bits of the fractions of the cube roots of the first 64 primes.\<close>

definition is_prime :: "nat \<Rightarrow> bool" where
  "is_prime p \<longleftrightarrow> 2 \<le> p \<and> list_all (\<lambda>d. p mod d \<noteq> 0) [2..<p]"

definition cube_root :: "nat \<Rightarrow> nat" where
  "cube_root n = fold (\<lambda>b r. if (r + 2 ^ b) ^ 3 \<le> n then r + 2 ^ b else r) (rev [0..<36]) 0"

definition sha_constants :: "u32 list" where
  "sha_constants = map (\<lambda>p. word_of_nat (cube_root (p * 2 ^ 96))) (filter is_prime [2..<312])"

definition rotr32 :: "nat \<Rightarrow> u32 \<Rightarrow> u32" where
  "rotr32 n w = drop_bit n w OR push_bit (32 - n) w"

definition big0 :: "u32 \<Rightarrow> u32" where
  "big0 x = rotr32 2 x XOR rotr32 13 x XOR rotr32 22 x"

definition big1 :: "u32 \<Rightarrow> u32" where
  "big1 x = rotr32 6 x XOR rotr32 11 x XOR rotr32 25 x"

definition small0 :: "u32 \<Rightarrow> u32" where
  "small0 x = rotr32 7 x XOR rotr32 18 x XOR drop_bit 3 x"

definition small1 :: "u32 \<Rightarrow> u32" where
  "small1 x = rotr32 17 x XOR rotr32 19 x XOR drop_bit 10 x"

definition sha_ch :: "u32 \<Rightarrow> u32 \<Rightarrow> u32 \<Rightarrow> u32" where
  "sha_ch x y z = (x AND y) XOR (NOT x AND z)"

definition sha_maj :: "u32 \<Rightarrow> u32 \<Rightarrow> u32 \<Rightarrow> u32" where
  "sha_maj x y z = (x AND y) XOR (x AND z) XOR (y AND z)"

record sha_state =
  sh_a :: u32
  sh_b :: u32
  sh_c :: u32
  sh_d :: u32
  sh_e :: u32
  sh_f :: u32
  sh_g :: u32
  sh_h :: u32

definition sha_init :: sha_state where
  "sha_init = \<lparr>sh_a = 0x6a09e667, sh_b = 0xbb67ae85, sh_c = 0x3c6ef372, sh_d = 0xa54ff53a,
               sh_e = 0x510e527f, sh_f = 0x9b05688c, sh_g = 0x1f83d9ab, sh_h = 0x5be0cd19\<rparr>"

definition sha_round :: "u32 \<times> u32 \<Rightarrow> sha_state \<Rightarrow> sha_state" where
  "sha_round kw s =
     (let t1 = sh_h s + big1 (sh_e s) + sha_ch (sh_e s) (sh_f s) (sh_g s) + fst kw + snd kw;
          t2 = big0 (sh_a s) + sha_maj (sh_a s) (sh_b s) (sh_c s)
      in \<lparr>sh_a = t1 + t2, sh_b = sh_a s, sh_c = sh_b s, sh_d = sh_c s, sh_e = sh_d s + t1, sh_f = sh_e s, sh_g = sh_f s, sh_h = sh_g s\<rparr>)"

text \<open>The message schedule, built newest word first.\<close>

fun extend_schedule :: "nat \<Rightarrow> u32 list \<Rightarrow> u32 list" where
  "extend_schedule 0 ws = ws"
| "extend_schedule (Suc n) ws =
     extend_schedule n ((small1 (ws ! 1) + ws ! 6 + small0 (ws ! 14) + ws ! 15) # ws)"

fun words_of :: "bytes \<Rightarrow> u32 list" where
  "words_of (a # b # c # d # s) = be32 [a, b, c, d] # words_of s"
| "words_of _ = []"

definition sha_block :: "bytes \<Rightarrow> sha_state \<Rightarrow> sha_state" where
  "sha_block blk s =
     (let ws = rev (extend_schedule 48 (rev (words_of blk)));
          t = fold sha_round (zip sha_constants ws) s
      in \<lparr>sh_a = sh_a s + sh_a t, sh_b = sh_b s + sh_b t, sh_c = sh_c s + sh_c t, sh_d = sh_d s + sh_d t,
          sh_e = sh_e s + sh_e t, sh_f = sh_f s + sh_f t, sh_g = sh_g s + sh_g t, sh_h = sh_h s + sh_h t\<rparr>)"

definition sha_padding :: "nat \<Rightarrow> bytes" where
  "sha_padding n = 0x80 # replicate ((119 - n mod 64) mod 64) 0
     @ put32 (word_of_nat (8 * n div 2 ^ 32)) @ put32 (word_of_nat (8 * n))"

function sha_blocks :: "bytes \<Rightarrow> sha_state \<Rightarrow> sha_state" where
  "sha_blocks m s = (if length m < 64 then s else sha_blocks (drop 64 m) (sha_block (take 64 m) s))"
  by pat_completeness auto
termination
  by (relation "measure (\<lambda>(m, s). length m)") auto

declare sha_blocks.simps [simp del]

definition digest_of :: "sha_state \<Rightarrow> bytes" where
  "digest_of s = put32 (sh_a s) @ put32 (sh_b s) @ put32 (sh_c s) @ put32 (sh_d s)
     @ put32 (sh_e s) @ put32 (sh_f s) @ put32 (sh_g s) @ put32 (sh_h s)"

definition sha256 :: "bytes \<Rightarrow> bytes" where
  "sha256 m = digest_of (sha_blocks (m @ sha_padding (length m)) sha_init)"

definition hmac_sha256 :: "bytes \<Rightarrow> bytes \<Rightarrow> bytes" where
  "hmac_sha256 key m =
     (let k0 = (if length key > 64 then sha256 key else key);
          k = k0 @ replicate (64 - length k0) 0
      in sha256 (map (\<lambda>b. b XOR 0x5c) k @ sha256 (map (\<lambda>b. b XOR 0x36) k @ m)))"

text \<open>\<^verbatim>\<open>hex.EncodeToString\<close>.\<close>

definition hex_string :: "bytes \<Rightarrow> string" where
  "hex_string bs = concat (map (\<lambda>b. [hex_digit (unat b div 16), hex_digit (unat b mod 16)]) bs)"

lemma length_sha256 [simp]: "length (sha256 m) = 32"
  by (simp add: sha256_def digest_of_def)

lemma length_hmac [simp]: "length (hmac_sha256 key m) = 32"
  by (simp add: hmac_sha256_def Let_def)

lemma length_hex_string [simp]: "length (hex_string bs) = 2 * length bs"
  by (induction bs) (simp_all add: hex_string_def)

text \<open>Padding fills whole blocks.\<close>

lemma padded_length: "(n + length (sha_padding n)) mod 64 = 0"
proof -
  define r where "r = n mod 64"
  have pad: "(119 - r) mod 64 = (if r \<le> 55 then 55 - r else 119 - r)"
  proof (cases "r \<le> 55")
    case True
    then have "119 - r = 64 + (55 - r)" by simp
    then have "(119 - r) mod 64 = (55 - r) mod 64" by (simp only: mod_add_self1)
    with True show ?thesis by simp
  qed (simp add: r_def)
  have "r < 64" by (simp add: r_def)
  then have "r + (9 + (119 - r) mod 64) = 64 \<or> r + (9 + (119 - r) mod 64) = 128"
    unfolding pad by (cases "r \<le> 55") auto
  moreover have "(64 :: nat) mod 64 = 0" "(128 :: nat) mod 64 = 0" by simp_all
  ultimately have "(r + (9 + (119 - r) mod 64)) mod 64 = 0" by (elim disjE) (simp_all only:)
  then have "(n + (9 + (119 - r) mod 64)) mod 64 = 0" unfolding r_def by (simp add: mod_add_left_eq)
  then show ?thesis by (simp add: sha_padding_def r_def add.commute add.left_commute)
qed

lemma hex_digit_not_colon: "d < 16 \<Longrightarrow> hex_digit d \<noteq> CHR '':''"
proof -
  assume "d < 16"
  then have "byte (hex_digit d) \<noteq> 58" by (auto simp: hex_digit_def)
  then show ?thesis by auto
qed

lemma hex_string_no_colon: "CHR '':'' \<notin> set (hex_string bs)"
proof -
  have "unat (b :: u8) div 16 < 16" for b
    using unsigned_less [where ?'a = nat and w = b] by simp
  then have "CHR '':'' \<noteq> hex_digit (unat b div 16)" "CHR '':'' \<noteq> hex_digit (unat b mod 16)" for b :: u8
    using hex_digit_not_colon [of "unat b div 16"] hex_digit_not_colon [of "unat b mod 16"] by auto
  then show ?thesis by (auto simp: hex_string_def)
qed

end
