(* ===== verification/Auth.thy ===== *)
theory Auth
  imports Structs Base64 Sha256 Http
begin

text \<open>
  Accounts and sessions of the web server (\<^verbatim>\<open>web/main.go\<close>): the users file, password hashes, the
  first administrator, logins, session tokens, and who makes a request. The time is in seconds;
  random bytes are arguments. A file is its content, \<open>None\<close> where it cannot be read.
\<close>

subsection \<open>Users and their file\<close>

record user =
  us_id :: int
  us_name :: string
  us_hash :: string
  us_salt :: string
  us_algo :: string
  us_rounds :: int
  us_role :: string

definition zero_user :: user where
  "zero_user = \<lparr>us_id = 0, us_name = [], us_hash = [], us_salt = [], us_algo = [], us_rounds = 0, us_role = []\<rparr>"

definition user_fields :: "(string \<times> user setter) list" where
  "user_fields =
     [(''id'', int_setter us_id_update), (''username'', text_setter us_name_update),
      (''pw_hash'', text_setter us_hash_update), (''salt'', text_setter us_salt_update),
      (''pw_algo'', text_setter us_algo_update), (''pw_rounds'', int_setter us_rounds_update),
      (''role'', text_setter us_role_update)]"

definition user_json :: "user \<Rightarrow> json" where
  "user_json x = JObj
     [(''id'', doc_int (us_id x)), (''username'', JText (us_name x)), (''pw_hash'', JText (us_hash x)),
      (''salt'', JText (us_salt x)), (''pw_algo'', JText (us_algo x)), (''pw_rounds'', doc_int (us_rounds x)),
      (''role'', JText (us_role x))]"

text \<open>A slice of users is \<open>None\<close> while it is nil, which is printed differently from an empty one.\<close>

definition load_users :: "unicode \<Rightarrow> string option \<Rightarrow> user list option" where
  "load_users u file =
     (case file of
        None \<Rightarrow> None
      | Some data \<Rightarrow> (case decode_all data of
            Some (JList vs) \<Rightarrow> Some (map (\<lambda>v. snd (read_struct u user_fields zero_user v)) vs)
          | _ \<Rightarrow> None))"

definition users_of :: "user list option \<Rightarrow> user list" where
  "users_of us = (case us of None \<Rightarrow> [] | Some xs \<Rightarrow> xs)"

definition save_users :: "user list option \<Rightarrow> string" where
  "save_users us = marshal (case us of None \<Rightarrow> JNull | Some xs \<Rightarrow> JList (map user_json xs))"

subsection \<open>Passwords\<close>

definition hmac_hex :: "string \<Rightarrow> string \<Rightarrow> string" where
  "hmac_hex key m = hex_string (hmac_sha256 (bytes_of key) (bytes_of m))"

definition hash_rounds :: int where
  "hash_rounds = 25000"

definition hash_pw :: "string \<Rightarrow> string \<Rightarrow> int \<Rightarrow> string" where
  "hash_pw salt password rounds = (hmac_hex salt ^^ nat (rounds - 1)) (hmac_hex salt password)"

definition random_hex :: "bytes \<Rightarrow> string" where
  "random_hex rnd = hex_string rnd"

text \<open>\<^verbatim>\<open>initAdmin\<close>: the content of the users file after it, and the password it prints.\<close>

definition init_admin :: "unicode \<Rightarrow> bytes \<Rightarrow> bytes \<Rightarrow> string option \<Rightarrow> string option \<times> string option" where
  "init_admin u rnd_pw rnd_salt file =
     (if users_of (load_users u file) \<noteq> [] then (file, None)
      else
        (let pw = random_hex rnd_pw; salt = random_hex rnd_salt
         in (Some (save_users (Some
               [\<lparr>us_id = 1, us_name = ''admin'', us_hash = hash_pw salt pw hash_rounds, us_salt = salt,
                 us_algo = ''hmac-sha256'', us_rounds = hash_rounds, us_role = ''admin''\<rparr>])), Some pw)))"

subsection \<open>Tokens\<close>

definition token_payload :: "int \<Rightarrow> user \<Rightarrow> string" where
  "token_payload expires x =
     show_int (us_id x) @ '':'' @ us_name x @ '':'' @ us_role x @ '':'' @ show_int expires"

definition make_token :: "string \<Rightarrow> int \<Rightarrow> user \<Rightarrow> string" where
  "make_token secret now x =
     (let payload = token_payload (now + 86400) x
      in b64_encode (payload @ '':'' @ hmac_hex secret payload))"

definition verify_token :: "string \<Rightarrow> int \<Rightarrow> string \<Rightarrow> user option" where
  "verify_token secret now token =
     (case b64_decode token of
        None \<Rightarrow> None
      | Some s \<Rightarrow>
          if length s < 66 then None
          else (let sig_start = length s - 64 in
                if s ! (sig_start - 1) \<noteq> CHR '':'' then None
                else (let payload = take (sig_start - 1) s in
                      if drop sig_start s \<noteq> hmac_hex secret payload then None
                      else (let parts = split_on CHR '':'' payload; n = length parts in
                            if n < 4 then None
                            else if parse_int64_value (parts ! (n - 1)) < now then None
                            else Some (zero_user\<lparr>us_id := parse_int64_value (parts ! 0),
                                 us_name := join '':'' (take (n - 3) (drop 1 parts)),
                                 us_role := parts ! (n - 2)\<rparr>)))))"

text \<open>The loop of \<^verbatim>\<open>doLogin\<close> over the users; the empty string stands for a failure.\<close>

fun do_login :: "string \<Rightarrow> int \<Rightarrow> user list \<Rightarrow> string \<Rightarrow> string \<Rightarrow> string" where
  "do_login secret now [] username password = []"
| "do_login secret now (x # xs) username password =
     (if us_name x \<noteq> username then do_login secret now xs username password
      else
        (let rounds = (if us_rounds x = 0 then 1000 else us_rounds x);
             got = hash_pw (us_salt x) password rounds
         in if got \<noteq> us_hash x then
              (if us_rounds x = 0 then
                 (let legacy = hash_pw (us_salt x) password 1000
                  in if legacy \<noteq> us_hash x then [] else make_token secret now x)
               else [])
            else make_token secret now x))"

subsection \<open>Who makes a request\<close>

definition api_user :: user where
  "api_user = zero_user\<lparr>us_id := 0, us_name := ''api'', us_role := ''admin''\<rparr>"

definition sent_key :: "string \<Rightarrow> request \<Rightarrow> bool" where
  "sent_key key r \<longleftrightarrow> key \<noteq> [] \<and>
     (rq_header r ''X-API-Key'' = key \<or> bearer (rq_header r ''Authorization'') = Some key)"

definition get_user :: "string \<Rightarrow> string \<Rightarrow> int \<Rightarrow> request \<Rightarrow> user option" where
  "get_user key secret now r =
     (if rq_header r ''X-API-Key'' \<noteq> [] \<and> key \<noteq> [] \<and> rq_header r ''X-API-Key'' = key then Some api_user
      else if (case bearer (rq_header r ''Authorization'') of Some tok \<Rightarrow> key \<noteq> [] \<and> tok = key | None \<Rightarrow> False)
      then Some api_user
      else (case rq_cookie r ''zaman_sid'' of
              None \<Rightarrow> None
            | Some v \<Rightarrow> if v = [] then None else verify_token secret now v))"

text \<open>\<^verbatim>\<open>loadOrCreateSecret\<close>: the secret, and what is written to its file, if anything.\<close>

definition load_or_create_secret :: "bytes \<Rightarrow> string option \<Rightarrow> string \<times> string option" where
  "load_or_create_secret rnd file =
     (case file of
        Some data \<Rightarrow> if length data \<ge> 32 then (trim_space data, None) else (random_hex rnd, Some (random_hex rnd))
      | None \<Rightarrow> (random_hex rnd, Some (random_hex rnd)))"

subsection \<open>The users file is read back\<close>

lemma distinct_names:
  "\<not> equal_fold u ''username'' ''id''" "\<not> equal_fold u ''pw_hash'' ''id''" "\<not> equal_fold u ''pw_hash'' ''username''"
  "\<not> equal_fold u ''salt'' ''id''" "\<not> equal_fold u ''salt'' ''username''" "\<not> equal_fold u ''salt'' ''pw_hash''"
  "\<not> equal_fold u ''pw_algo'' ''id''" "\<not> equal_fold u ''pw_algo'' ''username''"
  "\<not> equal_fold u ''pw_algo'' ''pw_hash''" "\<not> equal_fold u ''pw_algo'' ''salt''"
  "\<not> equal_fold u ''pw_rounds'' ''id''" "\<not> equal_fold u ''pw_rounds'' ''username''"
  "\<not> equal_fold u ''pw_rounds'' ''pw_hash''" "\<not> equal_fold u ''pw_rounds'' ''salt''"
  "\<not> equal_fold u ''pw_rounds'' ''pw_algo''" "\<not> equal_fold u ''role'' ''id''" "\<not> equal_fold u ''role'' ''username''"
  "\<not> equal_fold u ''role'' ''pw_hash''" "\<not> equal_fold u ''role'' ''salt''" "\<not> equal_fold u ''role'' ''pw_algo''"
  "\<not> equal_fold u ''role'' ''pw_rounds''" "\<not> equal_fold u ''password'' ''username''" "\<not> equal_fold u ''password'' ''id''"
  "\<not> equal_fold u ''role'' ''password''"
  by (simp_all add: equal_fold_def runes_ascii fold_rune_def lower_rune_def)

definition int64 :: "int \<Rightarrow> bool" where
  "int64 n \<longleftrightarrow> - (2 ^ 63) \<le> n \<and> n < 2 ^ 63"

definition clean_user :: "user \<Rightarrow> bool" where
  "clean_user x \<longleftrightarrow> int64 (us_id x) \<and> int64 (us_rounds x) \<and> sanitize (us_name x) = us_name x
     \<and> sanitize (us_hash x) = us_hash x \<and> sanitize (us_salt x) = us_salt x \<and> sanitize (us_algo x) = us_algo x
     \<and> sanitize (us_role x) = us_role x"

lemma parse_doc_int: "int64 n \<Longrightarrow> parse_int64 (show_int n) = Inr n"
  by (rule parse_int64_show_int) (simp_all add: int64_def)

lemma user_json_ok: "doc_ok (user_json x)"
  by (simp add: user_json_def)

lemma clean_user_json: "clean_user x \<Longrightarrow> clean_doc (user_json x) = user_json x"
  by (simp add: user_json_def clean_user_def sanitize_ascii)

lemma read_user_json: "clean_user x \<Longrightarrow> read_struct u user_fields zero_user (user_json x) = (True, x)"
  by (simp add: read_struct_def user_json_def user_fields_def distinct_names int_setter_def text_setter_def doc_int_def
      parse_doc_int clean_user_def zero_user_def)

lemma load_saved_users:
  assumes "list_all clean_user xs"
  shows "load_users u (Some (save_users (Some xs))) = Some xs"
proof -
  have "list_all doc_ok (map user_json xs)" by (simp add: list_all_iff user_json_ok)
  moreover have "map clean_doc (map user_json xs) = map user_json xs"
    using assms by (simp add: list_all_iff clean_user_json)
  ultimately have "decode_all (save_users (Some xs)) = Some (JList (map user_json xs))"
    using decode_marshalled [of "JList (map user_json xs)"] by (simp add: save_users_def del: map_map)
  moreover have "map (\<lambda>v. snd (read_struct u user_fields zero_user v)) (map user_json xs) = xs"
    using assms by (simp add: list_all_iff read_user_json map_idI)
  ultimately show ?thesis by (simp add: load_users_def)
qed

lemma parse_int64_range: "parse_int64 l = Inr n \<Longrightarrow> int64 n"
  by (auto simp: parse_int64_def int64_def Let_def split: list.splits if_splits sum.splits num_error.splits)

lemma user_setters: "setters_keep clean_user user_fields"
  by (auto simp: setters_keep_def user_fields_def text_setter_def int_setter_def clean_user_def
      split: json.splits sum.splits dest!: parse_int64_range)

lemma clean_zero_user: "clean_user zero_user"
  by (simp add: clean_user_def zero_user_def int64_def sanitize_ascii)

lemmas read_user_clean = read_struct_keeps [OF user_setters _ clean_zero_user]

lemma loaded_users_clean: "list_all clean_user (users_of (load_users u file))"
proof (cases "file")
  case (Some data)
  show ?thesis
  proof (cases "decode_all data")
    case (Some v)
    have "clean_doc v = v" by (rule decode_all_clean [OF Some])
    then have "clean_user (snd (read_struct u user_fields zero_user w))" if "v = JList vs" "w \<in> set vs" for vs w
      using that clean_items by (intro read_user_clean) blast
    then show ?thesis using \<open>file = Some data\<close> Some
      by (auto simp: load_users_def users_of_def list_all_iff split: json.splits)
  qed (simp add: \<open>file = Some data\<close> load_users_def users_of_def)
qed (simp add: load_users_def users_of_def)

subsection \<open>Tokens are read back\<close>

lemma length_hmac_hex [simp]: "length (hmac_hex key m) = 64"
  by (simp add: hmac_hex_def)

lemma show_int_no_colon: "CHR '':'' \<notin> set (show_int n)"
  using show_nat_digits [of "nat n"] show_nat_digits [of "nat (- n)"]
  by (auto simp: show_int_def list_all_iff is_digit_def)

lemma split_payload:
  assumes "CHR '':'' \<notin> set (us_role x)"
  shows "split_on CHR '':'' (token_payload e x)
    = show_int (us_id x) # split_on CHR '':'' (us_name x) @ [us_role x, show_int e]"
  using assms split_on_append [of "CHR '':''"] split_on_no_sep [OF show_int_no_colon] split_on_no_sep [of "CHR '':''"]
  by (simp add: token_payload_def)

definition session_of :: "user \<Rightarrow> user" where
  "session_of x = zero_user\<lparr>us_id := us_id x, us_name := us_name x, us_role := us_role x\<rparr>"

text \<open>What \<open>verify_token\<close> makes of the text inside a token with a good signature.\<close>

definition payload_user :: "int \<Rightarrow> string \<Rightarrow> user option" where
  "payload_user now payload =
     (let parts = split_on CHR '':'' payload; n = length parts in
      if n < 4 \<or> parse_int64_value (parts ! (n - 1)) < now then None
      else Some (zero_user\<lparr>us_id := parse_int64_value (parts ! 0),
             us_name := join '':'' (take (n - 3) (drop 1 parts)), us_role := parts ! (n - 2)\<rparr>))"

lemma payload_user_not_Nil: "payload_user now payload = Some x \<Longrightarrow> payload \<noteq> []"
  by (auto simp: payload_user_def Let_def split: if_splits)

lemma verify_signed:
  assumes "b64_decode t = Some (payload @ '':'' @ hmac_hex secret payload)"
  shows "verify_token secret now t = payload_user now payload"
proof (cases "payload = []")
  case True
  with assms show ?thesis by (simp add: verify_token_def payload_user_def)
next
  case False
  let ?s = "payload @ '':'' @ hmac_hex secret payload"
  have "length ?s = length payload + 65" by simp
  moreover have "?s ! length payload = CHR '':''" by simp
  moreover have "take (length payload) ?s = payload" by simp
  moreover have "drop (Suc (length payload)) ?s = hmac_hex secret payload" by simp
  moreover have "0 < length payload" using False by simp
  ultimately show ?thesis
    using assms by (simp add: verify_token_def payload_user_def Let_def)
qed

lemma verify_token_signed:
  assumes "verify_token secret now t = Some x"
  shows "\<exists>payload. b64_decode t = Some (payload @ '':'' @ hmac_hex secret payload)"
proof -
  from assms obtain s where s: "b64_decode t = Some s" "\<not> length s < 66"
      "s ! (length s - 65) = CHR '':''"
      "drop (length s - 64) s = hmac_hex secret (take (length s - 65) s)"
    by (auto simp: verify_token_def Let_def split: option.splits if_splits)
  then have "Suc (length s - 65) = length s - 64" "length s - 65 < length s" by simp_all
  then have "s = take (length s - 65) s @ s ! (length s - 65) # drop (length s - 64) s"
    by (metis id_take_nth_drop)
  with s have "s = take (length s - 65) s @ '':'' @ hmac_hex secret (take (length s - 65) s)" by simp
  then show ?thesis using s(1) by metis
qed

lemma payload_user_printed:
  assumes "CHR '':'' \<notin> set (us_role x)" "int64 (us_id x)" "int64 e"
  shows "payload_user now (token_payload e x) = (if now \<le> e then Some (session_of x) else None)"
proof -
  let ?ns = "split_on CHR '':'' (us_name x)"
  have val: "parse_int64_value (show_int n) = n" if "int64 n" for n
    by (simp add: parse_int64_value_def parse_doc_int that)
  have "?ns \<noteq> []" by simp
  moreover have "take (length ?ns) (drop 1 (show_int (us_id x) # ?ns @ [us_role x, show_int e])) = ?ns" by simp
  ultimately show ?thesis
    by (simp add: payload_user_def split_payload [OF assms(1)] Let_def session_of_def val assms join_split_on
        nth_append)
qed

lemma verify_made_token:
  assumes "CHR '':'' \<notin> set (us_role x)" "int64 (us_id x)" "int64 (now + 86400)"
  shows "verify_token secret later (make_token secret now x)
    = (if later \<le> now + 86400 then Some (session_of x) else None)"
  using payload_user_printed [OF assms]
  by (subst verify_signed [where payload = "token_payload (now + 86400) x"]) (simp_all add: make_token_def Let_def)

subsection \<open>The secret survives a restart\<close>

lemma hex_graphic: "list_all graphic (hex_string bs)"
proof -
  have "graphic (hex_digit d)" if "d < 16" for d using that by (auto simp: graphic_def hex_digit_def)
  moreover have "unat (b :: u8) div 16 < 16" for b using unsigned_less [where ?'a = nat and w = b] by simp
  ultimately show ?thesis by (induction bs) (simp_all add: hex_string_def)
qed

lemma secret_is_kept:
  assumes "load_or_create_secret rnd f = (k, w)" "length rnd = 32"
  shows "load_or_create_secret rnd2 (case w of None \<Rightarrow> f | Some data \<Rightarrow> Some data) = (k, None)"
proof -
  have "length (hex_string rnd) \<noteq> 0" using assms(2) by simp
  then have "hex_string rnd \<noteq> []" by (metis list.size(3))
  then have "trimmed (hex_string rnd)"
    using hex_graphic [of rnd] by (auto simp: trimmed_def list_all_iff)
  then have "trim_space (hex_string rnd) = hex_string rnd" by (rule trim_space_trimmed)
  then show ?thesis
    using assms by (auto simp: load_or_create_secret_def random_hex_def split: option.splits if_splits)
qed

subsection \<open>Logging in\<close>

text \<open>
  The plain reading of \<^verbatim>\<open>doLogin\<close>: the first user of that name, 1000 rounds where the file has
  none; the second attempt of the source with 1000 rounds never differs from the first.
\<close>

definition password_matches :: "user \<Rightarrow> string \<Rightarrow> bool" where
  "password_matches x password \<longleftrightarrow>
     hash_pw (us_salt x) password (if us_rounds x = 0 then 1000 else us_rounds x) = us_hash x"

definition login_result :: "string \<Rightarrow> int \<Rightarrow> user list \<Rightarrow> string \<Rightarrow> string \<Rightarrow> string" where
  "login_result secret now us username password =
     (case find (\<lambda>x. us_name x = username) us of
        None \<Rightarrow> []
      | Some x \<Rightarrow> if password_matches x password then make_token secret now x else [])"

lemma do_login_result: "do_login secret now us username password = login_result secret now us username password"
  by (induction us) (auto simp: login_result_def password_matches_def Let_def)

lemma make_token_not_Nil: "make_token secret now x \<noteq> []"
proof
  assume "make_token secret now x = []"
  then have "b64_decode (make_token secret now x) = Some []" by (simp add: b64_decode_def)
  then show False by (simp add: make_token_def Let_def)
qed

lemma find_named:
  assumes "x \<in> set us" "distinct (map us_name us)"
  shows "find (\<lambda>y. us_name y = us_name x) us = Some x"
  using assms by (induction us) (auto simp: image_iff)

subsection \<open>Properties\<close>

text \<open>C17: a token of the server is accepted until 86400 seconds after it was made and no later, and gives back
  the id, the name and the role of its user, even when the name has colons in it.\<close>

theorem token_round_trip:
  assumes "CHR '':'' \<notin> set (us_role x)" "int64 (us_id x)" "int64 (now + 86400)"
  shows "verify_token secret later (make_token secret now x)
    = (if later \<le> now + 86400 then Some (session_of x) else None)"
  using assms by (rule verify_made_token)

definition colon_user :: user where
  "colon_user = zero_user\<lparr>us_id := 7, us_name := ''a:b'', us_role := ''viewer''\<rparr>"

theorem token_round_trip_witness:
  "verify_token ''k'' 1700086400 (make_token ''k'' 1700000000 colon_user) = Some (session_of colon_user)
   \<and> verify_token ''k'' 1700086401 (make_token ''k'' 1700000000 colon_user) = None"
  using token_round_trip [of colon_user 1700000000 "''k''" 1700086400]
    token_round_trip [of colon_user 1700000000 "''k''" 1700086401]
  by (simp add: colon_user_def int64_def zero_user_def)

text \<open>An accepted token ends with the HMAC, under the server's secret, of all that stands before it, and
  what stands before it names the user and a time that has not passed.\<close>

theorem accepted_token_is_signed:
  assumes "verify_token secret now t = Some x"
  shows "\<exists>payload. b64_decode t = Some (payload @ '':'' @ hmac_hex secret payload)
    \<and> payload_user now payload = Some x"
  using verify_token_signed [OF assms] verify_signed assms by metis

theorem accepted_token_is_signed_witness:
  "\<exists>payload. b64_decode (make_token ''k'' 0 colon_user) = Some (payload @ '':'' @ hmac_hex ''k'' payload)
    \<and> payload_user 5 payload = Some (session_of colon_user)"
proof (rule accepted_token_is_signed)
  show "verify_token ''k'' 5 (make_token ''k'' 0 colon_user) = Some (session_of colon_user)"
    by (subst verify_made_token) (simp_all add: colon_user_def int64_def zero_user_def)
qed

text \<open>C19: a login is decided by the first user of that name alone and succeeds exactly when the hash of the
  password, with that user's salt and rounds, is the stored one; the source's second attempt adds nothing.\<close>

theorem login_is_by_password:
  "do_login secret now us username password =
     (case find (\<lambda>x. us_name x = username) us of
        None \<Rightarrow> []
      | Some x \<Rightarrow> if hash_pw (us_salt x) password (if us_rounds x = 0 then 1000 else us_rounds x) = us_hash x
                  then make_token secret now x else [])"
  by (simp only: do_login_result login_result_def password_matches_def)

end
