(* ===== verification/WebApp.thy ===== *)
theory WebApp
  imports Auth Limiter Api
begin

text \<open>
  The web server in front of the core (\<^verbatim>\<open>web/main.go\<close>): logins and sessions, the saved searches,
  preferences, node names and users it keeps in files, and the proxy to the core's API. A
  request is handled at one second and alone; the files are a map from paths to contents.
\<close>

subsection \<open>Paths\<close>

text \<open>\<^verbatim>\<open>filepath.Clean\<close> and \<^verbatim>\<open>filepath.Join\<close> of two elements, on Unix. The stack has the last element first.\<close>

definition clean_step :: "bool \<Rightarrow> string list \<Rightarrow> string \<Rightarrow> string list" where
  "clean_step rooted st p =
     (if p = [] \<or> p = ''.'' then st
      else if p = ''..'' then
        (case st of t # rest \<Rightarrow> if t = ''..'' then p # st else rest | [] \<Rightarrow> if rooted then [] else [p])
      else p # st)"

definition clean_parts :: "string \<Rightarrow> string list" where
  "clean_parts s = foldl (clean_step (has_prefix s ''/'')) [] (split_on CHR ''/'' s)"

definition clean_path :: "string \<Rightarrow> string" where
  "clean_path s =
     (let body = join ''/'' (rev (clean_parts s)) in
      if has_prefix s ''/'' then ''/'' @ body else if body = [] then ''.'' else body)"

definition join_path :: "string \<Rightarrow> string \<Rightarrow> string" where
  "join_path a b =
     (if a \<noteq> [] then clean_path (a @ ''/'' @ b) else if b \<noteq> [] then clean_path b else [])"

subsection \<open>State, environment and replies\<close>

record web_config =
  wc_data :: string
  wc_auth :: bool
  wc_key :: string
  wc_secret :: string
  wc_static :: string
  wc_address :: string

text \<open>
  The time, the random bytes of a salt, the Unicode tables, which files can be written and which
  exist below the static directory. \<open>we_float_int\<close> and \<open>we_float_text\<close> are the 64-bit floating-point
  value of a number literal that is not a plain integer up to \<open>2^53\<close>, truncated and printed.
\<close>

record web_env =
  we_now :: int
  we_salt :: bytes
  we_unicode :: unicode
  we_writable :: "string \<Rightarrow> bool"
  we_exists :: "string \<Rightarrow> bool"
  we_float_int :: "string \<Rightarrow> int"
  we_float_text :: "string \<Rightarrow> string"

record web_state =
  ws_files :: "string \<Rightarrow> string option"
  ws_logins :: login_limiter

text \<open>
  A reply: a response, the login page with its message, a redirect with the value and age of the
  session cookie it sets, a request passed on to the core, a file below the static directory,
  or the connection dropped by a panic.
\<close>

datatype web_reply =
    Answer response
  | LoginPage string
  | Redirect string "(string \<times> int) option"
  | ToCore request
  | StaticFile string
  | Dropped

definition file_of :: "web_config \<Rightarrow> string \<Rightarrow> string" where
  "file_of cfg name = join_path (wc_data cfg) name"

definition users_file :: "web_config \<Rightarrow> string" where
  "users_file cfg = file_of cfg ''zaman-users.json''"

definition write_file :: "web_env \<Rightarrow> string \<Rightarrow> string \<Rightarrow> web_state \<Rightarrow> web_state" where
  "write_file ev path data s =
     (if we_writable ev path then s\<lparr>ws_files := (ws_files s)(path := Some data)\<rparr> else s)"

definition web_json :: "string \<Rightarrow> web_reply" where
  "web_json data = Answer \<lparr>rs_status = 200, rs_type = ''application/json'', rs_body = data\<rparr>"

definition web_error :: "string \<Rightarrow> nat \<Rightarrow> web_reply" where
  "web_error reason code = Answer (http_error (error_json reason) code)"

definition bad_method :: web_reply where
  "bad_method = Answer (http_error ''method not allowed'' 405)"

definition signed_in :: "web_config \<Rightarrow> web_env \<Rightarrow> request \<Rightarrow> user option" where
  "signed_in cfg ev r = get_user (wc_key cfg) (wc_secret cfg) (we_now ev) r"

definition web_users :: "web_config \<Rightarrow> web_env \<Rightarrow> web_state \<Rightarrow> user list option" where
  "web_users cfg ev s = load_users (we_unicode ev) (ws_files s (users_file cfg))"

subsection \<open>Starting\<close>

text \<open>Where the static files are; \<open>first\<close> is the directory next to the program.\<close>

definition web_static_dir :: "(string \<Rightarrow> bool) \<Rightarrow> string \<Rightarrow> string" where
  "web_static_dir exists first =
     (if exists first then first else if exists ''web/static'' then ''web/static'' else ''static'')"

definition start_admin :: "web_config \<Rightarrow> web_env \<Rightarrow> bytes \<Rightarrow> web_state \<Rightarrow> web_state" where
  "start_admin cfg ev rnd_pw s =
     (case init_admin (we_unicode ev) rnd_pw (we_salt ev) (ws_files s (users_file cfg)) of
        (Some data, Some _) \<Rightarrow> write_file ev (users_file cfg) data s
      | _ \<Rightarrow> s)"

definition start_web ::
  "getenv \<Rightarrow> web_env \<Rightarrow> bytes \<Rightarrow> bytes \<Rightarrow> string \<Rightarrow> string \<Rightarrow> web_state \<Rightarrow> web_config \<times> web_state" where
  "start_web e ev rnd_secret rnd_pw first address s =
     (let data = env e ''ZAMAN_DATA_DIR'' ''data''; path = join_path data ''zaman-web-secret.key'' in
      case load_or_create_secret rnd_secret (ws_files s path) of
        (secret, w) \<Rightarrow>
          (let cfg = \<lparr>wc_data = data, wc_auth = (env e ''ZAMAN_AUTH'' [] \<noteq> ''0''), wc_key = env e ''ZAMAN_API_KEY'' [],
                 wc_secret = secret, wc_static = web_static_dir (we_exists ev) first, wc_address = address\<rparr>;
               s1 = (case w of None \<Rightarrow> s | Some d \<Rightarrow> write_file ev path d s)
           in (cfg, if wc_auth cfg then start_admin cfg ev rnd_pw s1 else s1)))"

subsection \<open>Logging in and out\<close>

definition login :: "web_config \<Rightarrow> web_env \<Rightarrow> request \<Rightarrow> web_state \<Rightarrow> web_reply \<times> web_state" where
  "login cfg ev r s =
     (if rq_method r = ''GET'' then
        (if signed_in cfg ev r \<noteq> None then (Redirect ''/'' None, s) else (LoginPage [], s))
      else if rq_method r \<noteq> ''POST'' then (bad_method, s)
      else
        (let ip = web_client_ip r; now = we_now ev in
         case login_allow ip now (ws_logins s) of
           (ok, rl) \<Rightarrow>
             (let s1 = s\<lparr>ws_logins := rl\<rparr> in
              if \<not> ok then (LoginPage ''Too many login attempts. Please wait 60 seconds.'', s1)
              else
                (let token = do_login (wc_secret cfg) now (users_of (web_users cfg ev s))
                       (rq_form r ''username'') (rq_form r ''password'')
                 in if token = [] then
                      (LoginPage ''Invalid username or password.'', s1\<lparr>ws_logins := login_record ip now rl\<rparr>)
                    else (Redirect ''/'' (Some (token, 86400)), s1)))))"

definition logout :: "web_state \<Rightarrow> web_reply \<times> web_state" where
  "logout s = (Redirect ''/login'' (Some ([], - 1)), s)"

subsection \<open>Saved searches\<close>

definition plain_int :: "string \<Rightarrow> int option" where
  "plain_int l =
     (case parse_int64 l of Inr n \<Rightarrow> if show_int n = l \<and> \<bar>n\<bar> \<le> 2 ^ 53 then Some n else None | Inl _ \<Rightarrow> None)"

definition float_int :: "web_env \<Rightarrow> string \<Rightarrow> int" where
  "float_int ev l = (case plain_int l of Some n \<Rightarrow> n | None \<Rightarrow> we_float_int ev l)"

definition float_text :: "web_env \<Rightarrow> string \<Rightarrow> string" where
  "float_text ev l = (case plain_int l of Some n \<Rightarrow> l | None \<Rightarrow> we_float_text ev l)"

text \<open>A document read into \<^verbatim>\<open>interface{}\<close>: maps with the last value of a key, printed in key order.\<close>

definition last_values :: "(string \<times> json) list \<Rightarrow> (string \<times> json) list" where
  "last_values ms = sorted_entries (fold (\<lambda>m. put_entry (fst m) (snd m)) ms [])"

fun any_value :: "web_env \<Rightarrow> json \<Rightarrow> json" where
  "any_value ev (JLit l) = JLit (float_text ev l)"
| "any_value ev (JList vs) = JList (map (any_value ev) vs)"
| "any_value ev (JObj ms) = JObj (last_values (map (\<lambda>m. (fst m, any_value ev (snd m))) ms))"
| "any_value ev v = v"

definition read_search :: "web_env \<Rightarrow> json \<Rightarrow> json" where
  "read_search ev v = (case v of JObj _ \<Rightarrow> any_value ev v | _ \<Rightarrow> JNull)"

definition load_searches :: "web_env \<Rightarrow> string option \<Rightarrow> json list" where
  "load_searches ev file =
     (case file of
        None \<Rightarrow> []
      | Some data \<Rightarrow> (case decode_all data of Some (JList vs) \<Rightarrow> map (read_search ev) vs | _ \<Rightarrow> []))"

definition search_id :: "web_env \<Rightarrow> json \<Rightarrow> int option" where
  "search_id ev v =
     (case v of
        JObj ms \<Rightarrow> (case map_of ms ''id'' of Some (JLit l) \<Rightarrow> Some (float_int ev l) | _ \<Rightarrow> None)
      | _ \<Rightarrow> None)"

definition wrap64 :: "int \<Rightarrow> int" where
  "wrap64 n = sint (word_of_int n :: i64)"

definition next_search_id :: "web_env \<Rightarrow> json list \<Rightarrow> int" where
  "next_search_id ev vs =
     fold (\<lambda>v k. case search_id ev v of Some n \<Rightarrow> if n \<ge> k then wrap64 (n + 1) else k | None \<Rightarrow> k) vs 1"

record search_body =
  sb_name :: string
  sb_params :: "text_map option"

definition params_field :: "search_body setter" where
  "params_field v b = (case read_map v (sb_params b) of (ok, m) \<Rightarrow> if ok then Some (b\<lparr>sb_params := m\<rparr>) else None)"

definition search_fields :: "(string \<times> search_body setter) list" where
  "search_fields = [(''name'', text_setter sb_name_update), (''params'', params_field)]"

definition saved_search :: "int \<Rightarrow> search_body \<Rightarrow> json" where
  "saved_search k b = JObj [(''id'', doc_int k), (''name'', JText (sb_name b)), (''params'', map_json (sb_params b))]"

text \<open>A request body with an id, and perhaps a password.\<close>

record id_body =
  ib_id :: int
  ib_password :: string

definition no_id_body :: id_body where
  "no_id_body = \<lparr>ib_id = 0, ib_password = []\<rparr>"

definition id_fields :: "(string \<times> id_body setter) list" where
  "id_fields = [(''id'', int_setter ib_id_update)]"

definition searches :: "web_config \<Rightarrow> web_env \<Rightarrow> request \<Rightarrow> web_state \<Rightarrow> web_reply \<times> web_state" where
  "searches cfg ev r s =
     (let path = file_of cfg ''zaman-searches.json''; file = ws_files s path in
      if wc_auth cfg \<and> signed_in cfg ev r = None then (web_error ''unauthorized'' 401, s)
      else if rq_method r = ''GET'' then (web_json (case file of None \<Rightarrow> ''[]'' | Some data \<Rightarrow> data), s)
      else if rq_method r = ''POST'' then
        (case decode_body (we_unicode ev) search_fields \<lparr>sb_name = [], sb_params = None\<rparr> (rq_body r) of
           None \<Rightarrow> (web_error ''name required'' 400, s)
         | Some b \<Rightarrow>
             if sb_name b = [] then (web_error ''name required'' 400, s)
             else (let vs = load_searches ev file;
                       data = marshal (JList (vs @ [saved_search (next_search_id ev vs) b]))
                   in (web_json data, write_file ev path data s)))
      else if rq_method r = ''DELETE'' then
        (case decode_body (we_unicode ev) id_fields no_id_body (rq_body r) of
           None \<Rightarrow> (web_error ''bad json'' 400, s)
         | Some b \<Rightarrow>
             (let kept = filter (\<lambda>v. case search_id ev v of Some n \<Rightarrow> n \<noteq> ib_id b | None \<Rightarrow> False)
                           (load_searches ev file);
                  data = marshal (if kept = [] then JNull else JList kept)
              in (web_json data, write_file ev path data s)))
      else (bad_method, s))"

subsection \<open>Preferences and node names\<close>

definition prefs_file :: "web_config \<Rightarrow> string \<Rightarrow> string" where
  "prefs_file cfg name = file_of cfg (''zaman-prefs-'' @ name @ ''.json'')"

definition prefs :: "web_config \<Rightarrow> web_env \<Rightarrow> request \<Rightarrow> web_state \<Rightarrow> web_reply \<times> web_state" where
  "prefs cfg ev r s =
     (case signed_in cfg ev r of
        None \<Rightarrow> (web_error ''unauthorized'' 401, s)
      | Some x \<Rightarrow>
          (let path = prefs_file cfg (us_name x) in
           if rq_method r = ''GET'' then
             (web_json (case ws_files s path of None \<Rightarrow> ''{}'' | Some data \<Rightarrow> data), s)
           else if rq_method r = ''POST'' then
             (web_json ok_json, write_file ev path (take 16384 (rq_body r)) s)
           else (bad_method, s)))"

text \<open>
  \<^verbatim>\<open>existing\<close> starts as an empty map, which the file is read into, errors ignored; a file that
  holds \<^verbatim>\<open>null\<close> makes it nil, and storing into it then panics.
\<close>

definition existing_names :: "string option \<Rightarrow> text_map option" where
  "existing_names file =
     (case file of
        None \<Rightarrow> Some []
      | Some data \<Rightarrow> (case decode_all data of Some v \<Rightarrow> snd (read_map v (Some [])) | None \<Rightarrow> Some []))"

definition merge_name :: "string \<times> string \<Rightarrow> text_map \<Rightarrow> text_map" where
  "merge_name e m = (if snd e = [] then drop_entry (fst e) m else put_entry (fst e) (snd e) m)"

definition node_names :: "web_config \<Rightarrow> web_env \<Rightarrow> request \<Rightarrow> web_state \<Rightarrow> web_reply \<times> web_state" where
  "node_names cfg ev r s =
     (let path = file_of cfg ''zaman-node-names.json''; file = ws_files s path in
      if wc_auth cfg \<and> signed_in cfg ev r = None then (web_error ''unauthorized'' 401, s)
      else if rq_method r = ''GET'' then (web_json (case file of None \<Rightarrow> ''{}'' | Some data \<Rightarrow> data), s)
      else if rq_method r = ''POST'' then
        (case map_option (\<lambda>v. read_map v None) (decode_first (rq_body r)) of
           Some (True, body) \<Rightarrow>
             (let changes = (case body of Some es \<Rightarrow> es | None \<Rightarrow> []) in
              case existing_names file of
                Some m \<Rightarrow> (let data = marshal (map_json (Some (fold merge_name changes m)))
                           in (web_json data, write_file ev path data s))
              | None \<Rightarrow>
                  if list_ex (\<lambda>e. snd e \<noteq> []) changes then (Dropped, s)
                  else (web_json (marshal (map_json None)), write_file ev path (marshal (map_json None)) s))
         | _ \<Rightarrow> (web_error ''bad json'' 400, s))
      else (bad_method, s))"

subsection \<open>Users\<close>

record new_user_body =
  nb_name :: string
  nb_password :: string
  nb_role :: string

definition new_user_fields :: "(string \<times> new_user_body setter) list" where
  "new_user_fields =
     [(''username'', text_setter nb_name_update), (''password'', text_setter nb_password_update),
      (''role'', text_setter nb_role_update)]"

definition granted_role :: "string \<Rightarrow> string" where
  "granted_role role = (if role \<in> {''admin'', ''operator'', ''viewer''} then role else ''viewer'')"

definition with_password :: "web_env \<Rightarrow> string \<Rightarrow> user \<Rightarrow> user" where
  "with_password ev password x =
     (let salt = random_hex (we_salt ev) in
      x\<lparr>us_hash := hash_pw salt password hash_rounds, us_salt := salt, us_algo := ''hmac-sha256'',
        us_rounds := hash_rounds\<rparr>)"

definition next_user_id :: "user list \<Rightarrow> int" where
  "next_user_id us = wrap64 (foldl (\<lambda>m x. if us_id x > m then us_id x else m) 0 us + 1)"

definition new_user :: "web_env \<Rightarrow> user list \<Rightarrow> new_user_body \<Rightarrow> user" where
  "new_user ev us b = with_password ev (nb_password b)
     (zero_user\<lparr>us_id := next_user_id us, us_name := nb_name b, us_role := granted_role (nb_role b)\<rparr>)"

definition save :: "web_config \<Rightarrow> web_env \<Rightarrow> user list option \<Rightarrow> web_state \<Rightarrow> web_state" where
  "save cfg ev us s = write_file ev (users_file cfg) (save_users us) s"

definition is_admin :: "user option \<Rightarrow> bool" where
  "is_admin x \<longleftrightarrow> (case x of Some y \<Rightarrow> us_role y = ''admin'' | None \<Rightarrow> False)"

definition add_user :: "web_config \<Rightarrow> web_env \<Rightarrow> new_user_body \<Rightarrow> web_state \<Rightarrow> web_reply \<times> web_state" where
  "add_user cfg ev b s =
     (let us = users_of (web_users cfg ev s) in
      if nb_name b = [] \<or> nb_password b = [] then (web_error ''username and password required'' 400, s)
      else if list_ex (\<lambda>x. us_name x = nb_name b) us then (web_error ''username already exists'' 409, s)
      else (web_json ok_json, save cfg ev (Some (us @ [new_user ev us b])) s))"

definition safe_user :: "user \<Rightarrow> json" where
  "safe_user x = JObj [(''id'', doc_int (us_id x)), (''username'', JText (us_name x)), (''role'', JText (us_role x))]"

definition users :: "web_config \<Rightarrow> web_env \<Rightarrow> request \<Rightarrow> web_state \<Rightarrow> web_reply \<times> web_state" where
  "users cfg ev r s =
     (let me = signed_in cfg ev r; u = we_unicode ev; us = web_users cfg ev s in
      if \<not> is_admin me then (web_error ''forbidden'' 403, s)
      else if rq_method r = ''GET'' then
        (web_json (marshal (JList (map safe_user (users_of us))) @ [CHR 0x0A]), s)
      else if rq_method r = ''POST'' then
        (case decode_body u new_user_fields \<lparr>nb_name = [], nb_password = [], nb_role = []\<rparr> (rq_body r) of
           None \<Rightarrow> (web_error ''bad json'' 400, s)
         | Some b \<Rightarrow> add_user cfg ev b s)
      else if rq_method r = ''DELETE'' then
        (case decode_body u id_fields no_id_body (rq_body r) of
           None \<Rightarrow> (web_error ''bad json'' 400, s)
         | Some b \<Rightarrow>
             if map_option us_id me = Some (ib_id b) then (web_error ''cannot delete yourself'' 400, s)
             else (web_json ok_json, save cfg ev (map_option (filter (\<lambda>x. us_id x \<noteq> ib_id b)) us) s))
      else (bad_method, s))"

fun set_password :: "web_env \<Rightarrow> int \<Rightarrow> string \<Rightarrow> user list \<Rightarrow> user list option" where
  "set_password ev k password [] = None"
| "set_password ev k password (x # xs) =
     (if us_id x = k then Some (with_password ev password x # xs)
      else map_option ((#) x) (set_password ev k password xs))"

definition password_fields :: "(string \<times> id_body setter) list" where
  "password_fields = [(''id'', int_setter ib_id_update), (''password'', text_setter ib_password_update)]"

definition user_password :: "web_config \<Rightarrow> web_env \<Rightarrow> request \<Rightarrow> web_state \<Rightarrow> web_reply \<times> web_state" where
  "user_password cfg ev r s =
     (if \<not> is_admin (signed_in cfg ev r) then (web_error ''forbidden'' 403, s)
      else if rq_method r \<noteq> ''POST'' then (bad_method, s)
      else (case decode_body (we_unicode ev) password_fields no_id_body (rq_body r) of
          None \<Rightarrow> (web_error ''id and password required'' 400, s)
        | Some b \<Rightarrow>
            if ib_password b = [] then (web_error ''id and password required'' 400, s)
            else (case set_password ev (ib_id b) (ib_password b) (users_of (web_users cfg ev s)) of
                    None \<Rightarrow> (web_error ''user not found'' 404, s)
                  | Some us \<Rightarrow> (web_json ok_json, save cfg ev (Some us) s))))"

subsection \<open>The proxy and the static files\<close>

text \<open>
  The request the core receives: the director sets the key, and \<^verbatim>\<open>ReverseProxy\<close> appends the
  client's host to the forwarding header. It comes from the web server's own address.
\<close>

definition core_request :: "web_config \<Rightarrow> request \<Rightarrow> request" where
  "core_request cfg r =
     (let prior = rq_header r ''X-Forwarded-For'';
          via = (case split_host_port (rq_remote r) of
                   None \<Rightarrow> prior
                 | Some (host, _) \<Rightarrow> if prior = [] then host else prior @ '', '' @ host);
          hs = (rq_header r)(''X-Forwarded-For'' := via)
      in r\<lparr>rq_header := (if wc_key cfg \<noteq> [] then hs(''X-API-Key'' := wc_key cfg) else hs),
           rq_remote := wc_address cfg\<rparr>)"

definition core_api :: "web_config \<Rightarrow> web_env \<Rightarrow> request \<Rightarrow> web_state \<Rightarrow> web_reply \<times> web_state" where
  "core_api cfg ev r s =
     (if wc_auth cfg \<and> signed_in cfg ev r = None then (web_error ''unauthorized'' 401, s)
      else (ToCore (core_request cfg r), s))"

definition spa :: "web_config \<Rightarrow> web_env \<Rightarrow> request \<Rightarrow> web_state \<Rightarrow> web_reply \<times> web_state" where
  "spa cfg ev r s =
     (if wc_auth cfg \<and> rq_path r \<noteq> ''/login'' \<and> signed_in cfg ev r = None then (Redirect ''/login'' None, s)
      else if rq_path r \<noteq> ''/'' \<and> \<not> we_exists ev (join_path (wc_static cfg) (rq_path r)) then (StaticFile ''/'', s)
      else (StaticFile (rq_path r), s))"

subsection \<open>The multiplexer\<close>

datatype web_endpoint =
    Icon | IconRedirect | WebHealth | Login | Logout | Searches | Prefs | NodeNames | Users | UserPassword
  | CoreApi | CoreMetrics | Spa

definition web_routes :: "(string \<times> web_endpoint) list" where
  "web_routes =
     [(''/favicon.svg'', Icon), (''/favicon.ico'', IconRedirect), (''/health'', WebHealth), (''/login'', Login),
      (''/logout'', Logout), (''/web/searches'', Searches), (''/web/prefs'', Prefs), (''/web/node-names'', NodeNames),
      (''/web/users'', Users), (''/web/users/password'', UserPassword), (''/metrics'', CoreMetrics)]"

definition web_route :: "bool \<Rightarrow> string \<Rightarrow> web_endpoint" where
  "web_route auth path =
     (case map_of web_routes path of
        Some e \<Rightarrow> if e \<in> {Login, Logout} \<and> \<not> auth then Spa else e
      | None \<Rightarrow> if has_prefix path ''/api/'' then CoreApi else Spa)"

definition icon :: "string \<Rightarrow> web_reply" where
  "icon svg = Answer \<lparr>rs_status = 200, rs_type = ''image/svg+xml'', rs_body = svg\<rparr>"

text \<open>The drawing is an argument.\<close>

definition web_serve ::
  "string \<Rightarrow> web_config \<Rightarrow> web_env \<Rightarrow> request \<Rightarrow> web_state \<Rightarrow> web_reply \<times> web_state" where
  "web_serve svg cfg ev r s =
     (case web_route (wc_auth cfg) (rq_path r) of
        Icon \<Rightarrow> (icon svg, s)
      | IconRedirect \<Rightarrow> (Redirect ''/favicon.svg'' None, s)
      | WebHealth \<Rightarrow> (web_json ok_json, s)
      | Login \<Rightarrow> login cfg ev r s
      | Logout \<Rightarrow> logout s
      | Searches \<Rightarrow> searches cfg ev r s
      | Prefs \<Rightarrow> prefs cfg ev r s
      | NodeNames \<Rightarrow> node_names cfg ev r s
      | Users \<Rightarrow> users cfg ev r s
      | UserPassword \<Rightarrow> user_password cfg ev r s
      | CoreApi \<Rightarrow> core_api cfg ev r s
      | CoreMetrics \<Rightarrow> (ToCore (core_request cfg r), s)
      | Spa \<Rightarrow> spa cfg ev r s)"

subsection \<open>Files of different names are different files\<close>

definition plain_name :: "string \<Rightarrow> bool" where
  "plain_name n \<longleftrightarrow> CHR ''/'' \<notin> set n \<and> n \<notin> {[], ''.'', ''..''}"

lemma join_snoc: "xs \<noteq> [] \<Longrightarrow> join sep (xs @ [n]) = join sep xs @ sep @ n"
proof (induction xs)
  case (Cons a xs)
  then show ?case by (cases "xs = []") (simp_all add: join_Cons)
qed simp

lemma clean_parts_plain:
  assumes "plain_name n"
  shows "clean_parts (d @ ''/'' @ n) = n # foldl (clean_step (has_prefix (d @ ''/'') ''/'')) [] (split_on CHR ''/'' d)"
proof -
  have "split_on CHR ''/'' (d @ CHR ''/'' # n) = split_on CHR ''/'' d @ [n]"
    using assms by (simp add: split_on_append split_on_no_sep plain_name_def)
  moreover have "has_prefix (d @ CHR ''/'' # n) ''/'' = has_prefix (d @ ''/'') ''/''" by (cases d) simp_all
  moreover have "clean_step b st n = n # st" for b st using assms by (auto simp: clean_step_def plain_name_def)
  ultimately show ?thesis by (simp add: clean_parts_def)
qed

lemma join_path_plain:
  assumes "plain_name n"
  shows "\<exists>p. \<forall>m. plain_name m \<longrightarrow> join_path d m = p @ m"
proof (cases "d = []")
  case True
  have "join_path d m = m" if "plain_name m" for m
  proof -
    have "\<not> has_prefix m ''/''" "m \<noteq> []" using that by (cases m; auto simp: plain_name_def)+
    moreover have "clean_parts m = [m]"
      using that \<open>\<not> has_prefix m ''/''\<close> by (auto simp: clean_parts_def split_on_no_sep plain_name_def clean_step_def)
    ultimately show ?thesis by (simp add: True join_path_def clean_path_def Let_def)
  qed
  then show ?thesis by (intro exI [of _ "[]"]) simp
next
  case False
  define b where "b = has_prefix (d @ ''/'') ''/''"
  define st where "st = foldl (clean_step b) [] (split_on CHR ''/'' d)"
  have pre: "has_prefix (d @ ''/'' @ m) ''/'' = b" for m using False by (cases d) (simp_all add: b_def)
  have body: "join ''/'' (rev (clean_parts (d @ ''/'' @ m))) = (if st = [] then m else join ''/'' (rev st) @ ''/'' @ m)"
    if "plain_name m" for m
    unfolding clean_parts_plain [OF that] b_def [symmetric] st_def [symmetric] by (simp add: join_snoc)
  have "join_path d m = ((if b then ''/'' else []) @ (if st = [] then [] else join ''/'' (rev st) @ ''/'')) @ m"
    if "plain_name m" for m
  proof -
    have "m \<noteq> []" using that by (simp add: plain_name_def)
    then show ?thesis using False pre [of m] body [OF that] by (simp add: join_path_def clean_path_def Let_def)
  qed
  then show ?thesis by blast
qed

lemma file_of_eq: "plain_name m \<Longrightarrow> plain_name n \<Longrightarrow> file_of cfg m = file_of cfg n \<longleftrightarrow> m = n"
  using join_path_plain [of n "wc_data cfg"] by (auto simp: file_of_def)

lemma plain_names [simp]:
  "plain_name ''zaman-users.json''" "plain_name ''zaman-searches.json''" "plain_name ''zaman-node-names.json''"
  by (simp_all add: plain_name_def)

lemma plain_prefs [simp]: "CHR ''/'' \<notin> set name \<Longrightarrow> plain_name (''zaman-prefs-'' @ name @ ''.json'')"
  by (simp add: plain_name_def)

lemma other_files:
  "file_of cfg ''zaman-searches.json'' \<noteq> users_file cfg" "file_of cfg ''zaman-node-names.json'' \<noteq> users_file cfg"
  by (simp_all add: users_file_def file_of_eq)

lemma prefs_not_users: "CHR ''/'' \<notin> set name \<Longrightarrow> prefs_file cfg name \<noteq> users_file cfg"
  using file_of_eq [OF plain_prefs [of name] plain_names(1), of cfg] by (simp add: users_file_def prefs_file_def)

lemma prefs_file_eq:
  "CHR ''/'' \<notin> set m \<Longrightarrow> CHR ''/'' \<notin> set n \<Longrightarrow> prefs_file cfg m = prefs_file cfg n \<longleftrightarrow> m = n"
  using file_of_eq [OF plain_prefs [of m] plain_prefs [of n], of cfg] by (simp add: prefs_file_def)

lemma write_other: "p \<noteq> q \<Longrightarrow> ws_files (write_file ev p data s) q = ws_files s q"
  by (simp add: write_file_def)

subsection \<open>What a handler may change\<close>

lemma handler_files:
  "ws_files (snd (login cfg ev r s)) = ws_files s"
  "ws_files (snd (logout s)) = ws_files s"
  "ws_files (snd (core_api cfg ev r s)) = ws_files s"
  "ws_files (snd (spa cfg ev r s)) = ws_files s"
  by (simp_all add: login_def logout_def core_api_def spa_def Let_def split: prod.split)

lemma searches_other: "q \<noteq> file_of cfg ''zaman-searches.json'' \<Longrightarrow> ws_files (snd (searches cfg ev r s)) q = ws_files s q"
  by (auto simp: searches_def Let_def write_other split: option.split)

lemma node_names_other:
  "q \<noteq> file_of cfg ''zaman-node-names.json'' \<Longrightarrow> ws_files (snd (node_names cfg ev r s)) q = ws_files s q"
  by (auto simp: node_names_def Let_def write_other split: option.split prod.split bool.split)

lemma prefs_other:
  "(\<And>x. signed_in cfg ev r = Some x \<Longrightarrow> q \<noteq> prefs_file cfg (us_name x)) \<Longrightarrow>
   ws_files (snd (prefs cfg ev r s)) q = ws_files s q"
  by (auto simp: prefs_def Let_def write_other split: option.split)

lemma users_forbidden: "\<not> is_admin (signed_in cfg ev r) \<Longrightarrow> snd (users cfg ev r s) = s"
  by (simp add: users_def Let_def)

lemma password_forbidden: "\<not> is_admin (signed_in cfg ev r) \<Longrightarrow> snd (user_password cfg ev r s) = s"
  by (simp add: user_password_def)

definition slash_free :: "web_config \<Rightarrow> web_env \<Rightarrow> request \<Rightarrow> bool" where
  "slash_free cfg ev r \<longleftrightarrow> (case signed_in cfg ev r of Some x \<Rightarrow> CHR ''/'' \<notin> set (us_name x) | None \<Rightarrow> True)"

lemma users_file_kept:
  assumes "slash_free cfg ev r" "web_route (wc_auth cfg) (rq_path r) \<notin> {Users, UserPassword}"
  shows "ws_files (snd (web_serve svg cfg ev r s)) (users_file cfg) = ws_files s (users_file cfg)"
proof -
  have "ws_files (snd (prefs cfg ev r s)) (users_file cfg) = ws_files s (users_file cfg)"
    using assms(1) by (intro prefs_other) (auto simp: slash_free_def dest: prefs_not_users [of _ cfg])
  then show ?thesis
    using assms(2) searches_other [OF other_files(1) [symmetric], where ev = ev and r = r and s = s]
      node_names_other [OF other_files(2) [symmetric], where ev = ev and r = r and s = s]
    by (cases "web_route (wc_auth cfg) (rq_path r)") (simp_all add: web_serve_def handler_files)
qed

lemma users_file_by_admin:
  assumes "\<not> is_admin (signed_in cfg ev r)" "slash_free cfg ev r"
  shows "ws_files (snd (web_serve svg cfg ev r s)) (users_file cfg) = ws_files s (users_file cfg)"
  using users_file_kept [OF assms(2), of svg s] users_forbidden [OF assms(1)] password_forbidden [OF assms(1)]
  by (cases "web_route (wc_auth cfg) (rq_path r)") (simp_all add: web_serve_def)

subsection \<open>The users stay well formed\<close>

definition role_ok :: "string \<Rightarrow> bool" where
  "role_ok role \<longleftrightarrow> role \<in> {''admin'', ''operator'', ''viewer''}"

definition good_users :: "user list \<Rightarrow> bool" where
  "good_users us \<longleftrightarrow> list_all clean_user us \<and> distinct (map us_id us) \<and> distinct (map us_name us)
     \<and> list_all (\<lambda>x. role_ok (us_role x)) us"

definition ids_below :: "int \<Rightarrow> user list \<Rightarrow> bool" where
  "ids_below k us \<longleftrightarrow> list_all (\<lambda>x. 0 \<le> us_id x \<and> us_id x \<le> k) us"

text \<open>The users file holds these users.\<close>

definition stored_users :: "web_config \<Rightarrow> web_state \<Rightarrow> user list \<Rightarrow> bool" where
  "stored_users cfg s us \<longleftrightarrow> ws_files s (users_file cfg) = Some (save_users (Some us))"

lemma web_users_stored: "stored_users cfg s us \<Longrightarrow> good_users us \<Longrightarrow> web_users cfg ev s = Some us"
  by (simp add: web_users_def stored_users_def good_users_def load_saved_users)

lemma hex_clean: "sanitize (hex_string bs) = hex_string bs"
proof (rule sanitize_ascii)
  have "byte (hex_digit d) < 0x80" if "d < 16" for d using that by (auto simp: hex_digit_def)
  moreover have "unat (b :: u8) div 16 < 16" for b using unsigned_less [where ?'a = nat and w = b] by simp
  ultimately show "ascii (hex_string bs)" by (induction bs) (simp_all add: hex_string_def)
qed

lemma hash_pw_clean: "sanitize (hash_pw salt pw n) = hash_pw salt pw n"
proof -
  have "\<exists>bs. (hmac_hex salt ^^ k) (hmac_hex salt pw) = hex_string bs" for k
    by (cases k) (auto simp: hmac_hex_def)
  then show ?thesis by (metis hash_pw_def hex_clean)
qed

lemma with_password_simps [simp]:
  "us_id (with_password ev pw x) = us_id x" "us_name (with_password ev pw x) = us_name x"
  "us_role (with_password ev pw x) = us_role x"
  by (simp_all add: with_password_def Let_def)

lemma clean_with_password: "clean_user x \<Longrightarrow> clean_user (with_password ev pw x)"
  by (simp add: clean_user_def with_password_def Let_def hex_clean hash_pw_clean random_hex_def sanitize_ascii
      int64_def hash_rounds_def)

lemma with_password_matches: "password_matches (with_password ev pw x) pw"
  by (simp add: password_matches_def with_password_def Let_def hash_rounds_def)

lemma set_password_shape:
  "set_password ev k pw us = Some us' \<Longrightarrow>
   map us_id us' = map us_id us \<and> map us_name us' = map us_name us \<and> map us_role us' = map us_role us
   \<and> (list_all clean_user us \<longrightarrow> list_all clean_user us')"
  by (induction us arbitrary: us') (auto simp: clean_with_password split: if_splits)

lemma set_password_some: "x \<in> set us \<Longrightarrow> set_password ev (us_id x) pw us \<noteq> None"
  by (induction us) auto

lemma set_password_at:
  "x \<in> set us \<Longrightarrow> distinct (map us_id us) \<Longrightarrow> set_password ev (us_id x) pw us = Some us' \<Longrightarrow>
   with_password ev pw x \<in> set us'"
  by (induction us arbitrary: us') (auto split: if_splits)

lemma list_all_mapped: "map f xs = map f ys \<Longrightarrow> list_all (\<lambda>x. P (f x)) xs = list_all (\<lambda>x. P (f x)) ys"
  by (metis list.pred_map comp_def list.pred_cong)

lemma good_after_password:
  assumes "set_password ev k pw us = Some us'" "good_users us"
  shows "good_users us'" "ids_below n us' = ids_below n us"
proof -
  note * = set_password_shape [OF assms(1)]
  have "list_all (\<lambda>x. role_ok (us_role x)) us' = list_all (\<lambda>x. role_ok (us_role x)) us"
    by (rule list_all_mapped) (use * in simp)
  then show "good_users us'" using assms(2) * by (simp add: good_users_def)
  show "ids_below n us' = ids_below n us" unfolding ids_below_def
    by (rule list_all_mapped [where P = "\<lambda>i. 0 \<le> i \<and> i \<le> n"]) (use * in simp)
qed

lemma good_filtered: "good_users us \<Longrightarrow> good_users (filter p us)" "ids_below n us \<Longrightarrow> ids_below n (filter p us)"
  by (auto simp: good_users_def ids_below_def list_all_iff distinct_map inj_on_def intro: inj_on_subset)

lemma max_id:
  "ids_below n us \<Longrightarrow> 0 \<le> m \<Longrightarrow> m \<le> n \<Longrightarrow>
   (let k = foldl (\<lambda>m x. if us_id x > m then us_id x else m) m us in
    m \<le> k \<and> k \<le> n \<and> (\<forall>x \<in> set us. us_id x \<le> k))"
proof (induction us arbitrary: m)
  case (Cons x us)
  let ?m = "if us_id x > m then us_id x else m"
  have "ids_below n us" "0 \<le> ?m" "?m \<le> n" using Cons.prems by (auto simp: ids_below_def)
  from Cons.IH [OF this] show ?case by (auto simp: Let_def split: if_splits)
qed simp

lemma wrap64_id: "0 \<le> n \<Longrightarrow> n < 2 ^ 63 \<Longrightarrow> wrap64 n = n"
  by (simp add: wrap64_def signed_take_bit_int_eq_self sint_sbintrunc')

lemma next_user_id_fresh:
  assumes "ids_below n us" "0 \<le> n" "n + 1 < 2 ^ 63"
  shows "0 \<le> next_user_id us \<and> next_user_id us \<le> n + 1 \<and> next_user_id us \<notin> us_id ` set us"
proof -
  define k where "k = foldl (\<lambda>m x. if us_id x > m then us_id x else m) 0 us"
  have k: "0 \<le> k" "k \<le> n" "\<forall>x \<in> set us. us_id x \<le> k"
    using max_id [OF assms(1), of 0] assms(2) by (simp_all add: k_def Let_def)
  then have "next_user_id us = k + 1" using assms(3) by (simp add: next_user_id_def k_def [symmetric] wrap64_id)
  then show ?thesis using k by force
qed

lemma good_added:
  assumes "good_users us" "ids_below n us" "0 \<le> n" "n + 1 < 2 ^ 63"
    and "\<not> list_ex (\<lambda>x. us_name x = nb_name b) us" "sanitize (nb_name b) = nb_name b"
  shows "good_users (us @ [new_user ev us b])" "ids_below (n + 1) (us @ [new_user ev us b])"
proof -
  let ?x = "new_user ev us b"
  note new = next_user_id_fresh [OF assms(2-4)]
  have x: "us_id ?x = next_user_id us" "us_name ?x = nb_name b" "us_role ?x = granted_role (nb_role b)"
    by (simp_all add: new_user_def)
  have "clean_user ?x" unfolding new_user_def
    using new assms(4,6) by (intro clean_with_password)
      (auto simp: clean_user_def zero_user_def int64_def granted_role_def sanitize_ascii)
  moreover have "role_ok (us_role ?x)" by (auto simp: x role_ok_def granted_role_def)
  ultimately show "good_users (us @ [?x])"
    using assms(1,5) new by (auto simp: good_users_def x list_ex_iff)
  show "ids_below (n + 1) (us @ [?x])" using assms(2) new by (auto simp: ids_below_def x list_all_iff)
qed

lemma new_user_setters: "setters_keep (\<lambda>b. sanitize (nb_name b) = nb_name b) new_user_fields"
  by (auto simp: setters_keep_def new_user_fields_def text_setter_def split: json.splits)

lemma body_name_clean:
  "decode_body u new_user_fields \<lparr>nb_name = [], nb_password = [], nb_role = []\<rparr> body = Some b \<Longrightarrow>
   sanitize (nb_name b) = nb_name b"
  by (rule decode_body_keeps [OF new_user_setters]) (simp_all add: sanitize_ascii)

text \<open>The users file before and after a request, all ids up to \<open>n\<close>.\<close>

definition users_inv :: "web_config \<Rightarrow> int \<Rightarrow> web_state \<Rightarrow> bool" where
  "users_inv cfg n s \<longleftrightarrow> (\<exists>us. stored_users cfg s us \<and> good_users us \<and> ids_below n us)"

lemma ids_below_mono: "ids_below n us \<Longrightarrow> n \<le> m \<Longrightarrow> ids_below m us"
  by (auto simp: ids_below_def list_all_iff)

lemma users_inv_save:
  assumes "users_inv cfg n s" "good_users us" "ids_below n us"
  shows "users_inv cfg n (save cfg ev (Some us) s)"
  using assms by (auto simp: users_inv_def save_def write_file_def stored_users_def)

lemma users_inv_mono: "users_inv cfg n s \<Longrightarrow> n \<le> m \<Longrightarrow> users_inv cfg m s"
  using ids_below_mono by (auto simp: users_inv_def)

lemma users_inv_same:
  "users_inv cfg n s \<Longrightarrow> ws_files s' (users_file cfg) = ws_files s (users_file cfg) \<Longrightarrow> users_inv cfg n s'"
  by (simp add: users_inv_def stored_users_def)

lemma add_user_inv:
  assumes "users_inv cfg n s" "0 \<le> n" "n + 1 < 2 ^ 63" "sanitize (nb_name b) = nb_name b"
  shows "users_inv cfg (n + 1) (snd (add_user cfg ev b s))"
proof -
  from assms(1) obtain us where us: "stored_users cfg s us" "good_users us" "ids_below n us"
    by (auto simp: users_inv_def)
  have keep: "users_inv cfg (n + 1) s" using assms(1) by (rule users_inv_mono) simp
  then show ?thesis
    using us good_added [OF us(2,3) assms(2,3) _ assms(4)] web_users_stored [OF us(1,2)]
    by (auto simp: add_user_def users_of_def intro!: users_inv_save)
qed

lemma users_keeps_inv:
  assumes "users_inv cfg n s" "0 \<le> n" "n + 1 < 2 ^ 63"
  shows "users_inv cfg (n + 1) (snd (users cfg ev r s))"
proof -
  from assms(1) obtain us where us: "stored_users cfg s us" "good_users us" "ids_below n us"
    by (auto simp: users_inv_def)
  have keep: "users_inv cfg (n + 1) s" using assms(1) by (rule users_inv_mono) simp
  have del: "users_inv cfg (n + 1) (save cfg ev (map_option (filter p) (web_users cfg ev s)) s)" for p
    unfolding web_users_stored [OF us(1,2)] option.map
    by (rule users_inv_save [OF keep good_filtered(1) [OF us(2)] ids_below_mono [OF good_filtered(2) [OF us(3)]]]) simp
  have add: "users_inv cfg (n + 1) (snd (add_user cfg ev b s))"
    if "decode_body (we_unicode ev) new_user_fields \<lparr>nb_name = [], nb_password = [], nb_role = []\<rparr> (rq_body r) = Some b" for b
    by (rule add_user_inv [OF assms body_name_clean [OF that]])
  show ?thesis
    by (simp add: users_def Let_def keep del add split: option.split)
qed

lemma password_keeps_inv:
  assumes "users_inv cfg n s"
  shows "users_inv cfg n (snd (user_password cfg ev r s))"
proof -
  from assms obtain us where us: "stored_users cfg s us" "good_users us" "ids_below n us"
    by (auto simp: users_inv_def)
  have "users_inv cfg n (save cfg ev (Some us') s)" if "set_password ev k pw us = Some us'" for us' k pw
    using users_inv_save [OF assms] good_after_password [OF that us(2)] us(3) by blast
  then show ?thesis
    by (simp add: user_password_def web_users_stored [OF us(1,2)] users_of_def assms split: option.split)
qed

lemma web_serve_inv:
  assumes "users_inv cfg n s" "0 \<le> n" "n + 1 < 2 ^ 63" "slash_free cfg ev r"
  shows "users_inv cfg (n + 1) (snd (web_serve svg cfg ev r s))"
proof (cases "web_route (wc_auth cfg) (rq_path r) \<in> {Users, UserPassword}")
  case True
  then show ?thesis
    using users_keeps_inv [OF assms(1-3)] users_inv_mono [OF password_keeps_inv [OF assms(1)], of "n + 1"]
    by (auto simp: web_serve_def)
next
  case False
  then show ?thesis
    using users_file_kept [OF assms(4) False] users_inv_same users_inv_mono [OF assms(1), of "n + 1"] by simp
qed

text \<open>A run of the server: requests one after the other, none by a user with a slash in the name.\<close>

inductive web_run :: "string \<Rightarrow> web_config \<Rightarrow> nat \<Rightarrow> web_state \<Rightarrow> web_state \<Rightarrow> bool"
  for svg :: string and cfg :: web_config where
  none_yet: "web_run svg cfg 0 s s"
| one_more: "web_run svg cfg n s s1 \<Longrightarrow> slash_free cfg ev r \<Longrightarrow> web_serve svg cfg ev r s1 = (reply, s2) \<Longrightarrow>
    web_run svg cfg (Suc n) s s2"

inductive_cases web_run_Suc: "web_run svg cfg (Suc n) s s'"

lemma web_run_inv:
  "web_run svg cfg n s s' \<Longrightarrow> users_inv cfg k s \<Longrightarrow> 0 \<le> k \<Longrightarrow> k + int n < 2 ^ 63 \<Longrightarrow> users_inv cfg (k + int n) s'"
proof (induction rule: web_run.induct)
  case (one_more n s s1 ev r reply s2)
  then have "users_inv cfg (k + int n + 1) (snd (web_serve svg cfg ev r s1))"
    by (intro web_serve_inv) simp_all
  with one_more.hyps show ?case by (simp add: ac_simps)
qed simp

lemma start_admin_inv:
  assumes "we_writable ev (users_file cfg)" "users_of (web_users cfg ev s) = []"
  shows "users_inv cfg 1 (start_admin cfg ev rnd_pw s)"
proof -
  let ?x = "\<lparr>us_id = 1, us_name = ''admin'', us_hash = hash_pw (random_hex (we_salt ev)) (random_hex rnd_pw) hash_rounds,
      us_salt = random_hex (we_salt ev), us_algo = ''hmac-sha256'', us_rounds = hash_rounds, us_role = ''admin''\<rparr>"
  have "clean_user ?x"
    by (simp add: clean_user_def int64_def hash_rounds_def sanitize_ascii hash_pw_clean random_hex_def hex_clean)
  then have "good_users [?x]" "ids_below 1 [?x]" by (simp_all add: good_users_def role_ok_def ids_below_def)
  moreover have "stored_users cfg (start_admin cfg ev rnd_pw s) [?x]"
    using assms by (simp add: stored_users_def start_admin_def init_admin_def web_users_def Let_def write_file_def)
  ultimately show ?thesis by (auto simp: users_inv_def)
qed

lemma start_web_inv:
  assumes "start_web e ev rnd_secret rnd_pw first address s0 = (cfg, s)" "wc_auth cfg"
    and "we_writable ev (users_file cfg)" "users_of (web_users cfg ev s0) = []"
  shows "users_inv cfg 1 s"
proof -
  obtain secret w where sw: "load_or_create_secret rnd_secret (ws_files s0 (file_of cfg ''zaman-web-secret.key'')) = (secret, w)"
    by (cases "load_or_create_secret rnd_secret (ws_files s0 (file_of cfg ''zaman-web-secret.key''))")
  define s1 where "s1 = (case w of None \<Rightarrow> s0 | Some d \<Rightarrow> write_file ev (file_of cfg ''zaman-web-secret.key'') d s0)"
  have "wc_data cfg = env e ''ZAMAN_DATA_DIR'' ''data''"
    using assms(1) by (auto simp: start_web_def Let_def split: prod.splits)
  then have path: "file_of cfg ''zaman-web-secret.key'' = join_path (env e ''ZAMAN_DATA_DIR'' ''data'') ''zaman-web-secret.key''"
    by (simp add: file_of_def)
  then have "s = start_admin cfg ev rnd_pw s1"
    using assms(1,2) sw [unfolded path] by (auto simp: start_web_def Let_def s1_def [unfolded path] split: prod.splits)
  moreover have "file_of cfg ''zaman-web-secret.key'' \<noteq> users_file cfg"
    unfolding users_file_def by (subst file_of_eq) (simp_all add: plain_name_def)
  then have "web_users cfg ev s1 = web_users cfg ev s0"
    by (simp add: s1_def web_users_def write_other split: option.split)
  ultimately show ?thesis using start_admin_inv [OF assms(3)] assms(4) by simp
qed

subsection \<open>Passwords, node names, preferences\<close>

lemma route_login: "web_route True ''/login'' = Login"
  by (simp add: web_route_def web_routes_def)

lemma route_password: "web_route auth ''/web/users/password'' = UserPassword"
  by (simp add: web_route_def web_routes_def)

lemma login_ok:
  assumes "rq_method r = ''POST''" "fst (login_allow (web_client_ip r) (we_now ev) (ws_logins s))"
    and "stored_users cfg s us" "good_users us" "x \<in> set us" "password_matches x (rq_form r ''password'')"
    and "rq_form r ''username'' = us_name x"
  shows "fst (login cfg ev r s) = Redirect ''/'' (Some (make_token (wc_secret cfg) (we_now ev) x, 86400))"
proof -
  have "find (\<lambda>y. us_name y = us_name x) us = Some x"
    using assms(4,5) by (intro find_named) (simp_all add: good_users_def)
  then have "do_login (wc_secret cfg) (we_now ev) us (us_name x) (rq_form r ''password'')
      = make_token (wc_secret cfg) (we_now ev) x"
    using assms(6) by (simp add: do_login_result login_result_def)
  then show ?thesis
    using assms(1,2,7) web_users_stored [OF assms(3,4), of ev] make_token_not_Nil
    by (auto simp: login_def Let_def users_of_def split: prod.splits)
qed

lemma password_changed:
  assumes "is_admin (signed_in cfg ev r)" "rq_method r = ''POST''"
    and "decode_body (we_unicode ev) password_fields no_id_body (rq_body r) = Some b" "ib_password b \<noteq> []"
    and "we_writable ev (users_file cfg)" "stored_users cfg s us" "good_users us" "x \<in> set us" "us_id x = ib_id b"
  shows "\<exists>us'. stored_users cfg (snd (user_password cfg ev r s)) us' \<and> good_users us'
    \<and> with_password ev (ib_password b) x \<in> set us'"
proof -
  obtain us' where us': "set_password ev (us_id x) (ib_password b) us = Some us'"
    using set_password_some [OF assms(8)] by blast
  have "distinct (map us_id us)" using assms(7) by (simp add: good_users_def)
  note at = set_password_at [OF assms(8) this us']
  have "stored_users cfg (snd (user_password cfg ev r s)) us'"
    using assms us' web_users_stored [OF assms(6,7), of ev]
    by (simp add: user_password_def users_of_def save_def write_file_def stored_users_def)
  then show ?thesis using good_after_password(1) [OF us' assms(7)] at by blast
qed

lemma session_with_password [simp]: "session_of (with_password ev pw x) = session_of x"
  by (simp add: session_of_def)

text \<open>The node names a file holds, as a map.\<close>

definition names_in :: "string option \<Rightarrow> string \<rightharpoonup> string" where
  "names_in file = (case existing_names file of Some m \<Rightarrow> map_of m | None \<Rightarrow> Map.empty)"

lemma merged_names:
  "distinct (map fst changes) \<Longrightarrow>
   map_of (fold merge_name changes m) k =
     (case map_of changes k of None \<Rightarrow> map_of m k | Some v \<Rightarrow> if v = [] then None else Some v)"
proof (induction changes arbitrary: m)
  case (Cons e es)
  have "map_of (merge_name e m) = (map_of m)(fst e := if snd e = [] then None else Some (snd e))"
    by (simp add: merge_name_def map_of_put_entry map_of_drop_entry)
  moreover have "map_of es (fst e) = None" using Cons.prems by (simp add: map_of_eq_None_iff)
  ultimately show ?case using Cons by (cases e) (auto split: option.split)
qed simp

lemma merged_clean: "clean_entries changes \<Longrightarrow> clean_entries m \<Longrightarrow> clean_entries (fold merge_name changes m)"
proof (induction changes arbitrary: m)
  case (Cons e es)
  then have "clean_entries es" "clean_entries (merge_name e m)"
    by (auto simp: clean_entries_def [of "e # es"] clean_entries_def [of es] merge_name_def clean_put_entry clean_drop_entry)
  with Cons.IH show ?case by simp
qed simp

lemma existing_clean: "existing_names f = Some m \<Longrightarrow> clean_entries m"
proof -
  assume a: "existing_names f = Some m"
  have nil: "clean_entries []" by (simp add: clean_entries_def)
  have read: "clean_entries t" if "decode_all d = Some v" "snd (read_map v (Some [])) = Some t" for d v t
  proof (rule read_map_clean)
    show "read_map v (Some []) = (fst (read_map v (Some [])), Some t)" using that(2) by (metis prod.collapse)
    show "clean_doc v = v" by (rule decode_all_clean [OF that(1)])
  qed (use nil in simp)
  show ?thesis
    using a nil read by (auto simp: existing_names_def split: option.splits)
qed

lemma names_written: "clean_entries m \<Longrightarrow> names_in (Some (marshal (map_json (Some m)))) = map_of m"
  by (simp add: names_in_def existing_names_def decode_map_json read_map_json map_of_sorted_entries clean_entries_def)

lemma node_names_post:
  assumes "rq_method r = ''POST''" "wc_auth cfg \<longrightarrow> signed_in cfg ev r \<noteq> None"
    and "decode_first (rq_body r) = Some v" "read_map v None = (True, Some changes)"
    and "existing_names (ws_files s (file_of cfg ''zaman-node-names.json'')) = Some m"
    and "we_writable ev (file_of cfg ''zaman-node-names.json'')"
  shows "names_in (ws_files (snd (node_names cfg ev r s)) (file_of cfg ''zaman-node-names.json'')) k =
    (case map_of changes k of None \<Rightarrow> map_of m k | Some w \<Rightarrow> if w = [] then None else Some w)"
proof -
  have "clean_entries changes" by (rule read_map_clean [OF assms(4) decode_first_clean [OF assms(3)]]) simp
  moreover have "clean_entries m" by (rule existing_clean [OF assms(5)])
  ultimately have "clean_entries (fold merge_name changes m)" by (rule merged_clean)
  moreover have "distinct (map fst changes)" using \<open>clean_entries changes\<close> by (simp add: clean_entries_def)
  moreover have "ws_files (snd (node_names cfg ev r s)) (file_of cfg ''zaman-node-names.json'')
      = Some (marshal (map_json (Some (fold merge_name changes m))))"
    using assms by (auto simp: node_names_def Let_def write_file_def)
  ultimately show ?thesis by (simp add: names_written merged_names)
qed

subsection \<open>A request nobody is signed in for\<close>

lemma stranger_replies:
  assumes "wc_auth cfg" "signed_in cfg ev r = None"
  shows "searches cfg ev r s = (web_error ''unauthorized'' 401, s)"
    "prefs cfg ev r s = (web_error ''unauthorized'' 401, s)"
    "node_names cfg ev r s = (web_error ''unauthorized'' 401, s)"
    "users cfg ev r s = (web_error ''forbidden'' 403, s)"
    "user_password cfg ev r s = (web_error ''forbidden'' 403, s)"
    "core_api cfg ev r s = (web_error ''unauthorized'' 401, s)"
  using assms by (simp_all add: searches_def prefs_def node_names_def users_def user_password_def core_api_def
      Let_def is_admin_def)

lemma login_stays: "fst (login cfg ev r s) \<noteq> ToCore r'" "fst (login cfg ev r s) \<noteq> StaticFile p"
  by (simp_all add: login_def Let_def bad_method_def split: prod.split)

lemma route_metrics: "web_route auth path = CoreMetrics \<Longrightarrow> path = ''/metrics''"
proof -
  assume "web_route auth path = CoreMetrics"
  then have "map_of web_routes path = Some CoreMetrics"
    by (auto simp: web_route_def split: if_splits option.splits)
  from map_of_SomeD [OF this] show ?thesis by (simp add: web_routes_def)
qed

subsection \<open>A small site\<close>

definition demo_web :: web_config where
  "demo_web = \<lparr>wc_data = ''data'', wc_auth = True, wc_key = ''k'', wc_secret = ''s'', wc_static = ''static'',
     wc_address = ''127.0.0.1:3000''\<rparr>"

definition demo_env :: web_env where
  "demo_env = \<lparr>we_now = 1700000000, we_salt = [], we_unicode = ascii_tables, we_writable = (\<lambda>_. True),
     we_exists = (\<lambda>_. True), we_float_int = (\<lambda>_. 0), we_float_text = (\<lambda>l. l)\<rparr>"

definition demo_state :: web_state where
  "demo_state = \<lparr>ws_files = (\<lambda>_. None), ws_logins = new_login_limiter\<rparr>"

definition cookie_request :: "string \<Rightarrow> string \<Rightarrow> string \<Rightarrow> user \<Rightarrow> request" where
  "cookie_request method path body x = (plain_request method path)
     \<lparr>rq_body := body, rq_cookie := (\<lambda>_. Some (make_token ''s'' 1700000000 x))\<rparr>"

definition key_request :: "string \<Rightarrow> string \<Rightarrow> string \<Rightarrow> request" where
  "key_request method path body = (plain_request method path)
     \<lparr>rq_body := body, rq_header := (\<lambda>_. [])(''X-API-Key'' := ''k'')\<rparr>"

lemma cookie_request_simps [simp]:
  "rq_method (cookie_request m p b x) = m" "rq_path (cookie_request m p b x) = p" "rq_body (cookie_request m p b x) = b"
  by (simp_all add: cookie_request_def plain_request_def)

lemma key_request_simps [simp]:
  "rq_method (key_request m p b) = m" "rq_path (key_request m p b) = p" "rq_body (key_request m p b) = b"
  by (simp_all add: key_request_def plain_request_def)

lemma demo_signed_in:
  "signed_in demo_web demo_env (plain_request m p) = None"
  "signed_in demo_web demo_env (key_request m p b) = Some api_user"
  "CHR '':'' \<notin> set (us_role x) \<Longrightarrow> int64 (us_id x) \<Longrightarrow>
   signed_in demo_web demo_env (cookie_request m p b x) = Some (session_of x)"
  by (simp_all add: signed_in_def get_user_def demo_web_def demo_env_def key_request_def cookie_request_def
      plain_request_def bearer_def make_token_not_Nil verify_made_token int64_def)

lemma demo_writable [simp]: "we_writable demo_env p"
  by (simp add: demo_env_def)

subsection \<open>Properties\<close>

text \<open>C10: with logins on, a request nobody is signed in for changes no file, reads no file below the static
  directory, and reaches the core only as a request for the metrics.\<close>

theorem stranger_changes_nothing:
  assumes "wc_auth cfg" "signed_in cfg ev r = None" "web_serve svg cfg ev r s = (reply, s')"
  shows "ws_files s' = ws_files s \<and> (\<forall>p. reply \<noteq> StaticFile p)
    \<and> (\<forall>r'. reply = ToCore r' \<longrightarrow> rq_path r = ''/metrics'' \<and> r' = core_request cfg r)"
proof -
  have reply: "reply = fst (web_serve svg cfg ev r s)" and s': "s' = snd (web_serve svg cfg ev r s)"
    using assms(3) by simp_all
  show ?thesis
  proof (cases "web_route True (rq_path r)")
    case CoreMetrics
    then show ?thesis using assms(1) route_metrics by (simp add: reply s' web_serve_def)
  next
    case Spa
    then have "rq_path r \<noteq> ''/login''" using route_login by auto
    then show ?thesis using assms(1,2) Spa by (simp add: reply s' web_serve_def spa_def)
  qed (simp_all add: reply s' web_serve_def assms(1) stranger_replies [OF assms(1,2)] handler_files login_stays
      icon_def web_json_def web_error_def logout_def)
qed

theorem stranger_changes_nothing_witness:
  "ws_files (snd (web_serve [] demo_web demo_env (plain_request ''POST'' ''/web/users'') demo_state)) = ws_files demo_state"
  using stranger_changes_nothing [of demo_web demo_env "plain_request ''POST'' ''/web/users''" "[]" demo_state]
  by (simp add: demo_signed_in demo_web_def [THEN arg_cong [where f = wc_auth]] split_beta) (metis prod.collapse)

text \<open>C18: only an administrator's request changes the users file, as long as no user has a slash in the name.\<close>

theorem only_admins_change_users:
  assumes "\<not> is_admin (signed_in cfg ev r)" "slash_free cfg ev r"
  shows "ws_files (snd (web_serve svg cfg ev r s)) (users_file cfg) = ws_files s (users_file cfg)"
  using assms by (rule users_file_by_admin)

theorem only_admins_change_users_witness:
  "ws_files (snd (web_serve [] demo_web demo_env (cookie_request ''DELETE'' ''/web/users'' ''{}'' colon_user) demo_state))
     (users_file demo_web) = None"
proof -
  have "signed_in demo_web demo_env (cookie_request ''DELETE'' ''/web/users'' ''{}'' colon_user) = Some (session_of colon_user)"
    by (rule demo_signed_in) (simp_all add: colon_user_def zero_user_def int64_def)
  moreover have "us_role (session_of colon_user) = ''viewer''" "us_name (session_of colon_user) = ''a:b''"
    by (simp_all add: session_of_def colon_user_def zero_user_def)
  ultimately show ?thesis
    using only_admins_change_users [of demo_web demo_env "cookie_request ''DELETE'' ''/web/users'' ''{}'' colon_user" "[]" demo_state]
    by (simp add: is_admin_def slash_free_def demo_state_def)
qed

text \<open>C27: without that condition it fails: a user of any role with the name \<open>/../zaman-users\<close> replaces all
  users by saving preferences, since the name is part of a path.\<close>

theorem prefs_can_replace_users:
  assumes "signed_in cfg ev r = Some x" "us_name x = ''/../zaman-users''" "wc_data cfg = ''data''"
    and "rq_path r = ''/web/prefs''" "rq_method r = ''POST''" "we_writable ev (users_file cfg)"
  shows "web_users cfg ev (snd (web_serve svg cfg ev r s)) = load_users (we_unicode ev) (Some (take 16384 (rq_body r)))"
proof -
  have "join_path ''data'' (''zaman-prefs-'' @ ''/../zaman-users'' @ ''.json'') = join_path ''data'' ''zaman-users.json''"
    by code_simp
  then have "prefs_file cfg (us_name x) = users_file cfg"
    by (simp only: prefs_file_def users_file_def file_of_def assms(2,3))
  moreover have "web_route (wc_auth cfg) ''/web/prefs'' = Prefs" by (simp add: web_route_def web_routes_def)
  ultimately show ?thesis
    using assms(1,4-6) by (simp add: web_serve_def prefs_def Let_def write_file_def web_users_def)
qed

definition slash_user :: user where
  "slash_user = zero_user\<lparr>us_id := 9, us_name := ''/../zaman-users'', us_role := ''viewer''\<rparr>"

theorem prefs_can_replace_users_witness:
  "web_users demo_web demo_env
     (snd (web_serve [] demo_web demo_env (cookie_request ''POST'' ''/web/prefs'' ''[]'' slash_user) demo_state))
   = load_users ascii_tables (Some ''[]'')"
proof -
  have "signed_in demo_web demo_env (cookie_request ''POST'' ''/web/prefs'' ''[]'' slash_user) = Some (session_of slash_user)"
    by (rule demo_signed_in) (simp_all add: slash_user_def zero_user_def int64_def)
  moreover have "us_name (session_of slash_user) = ''/../zaman-users''" by (simp add: session_of_def slash_user_def)
  ultimately show ?thesis
    using prefs_can_replace_users [of demo_web demo_env "cookie_request ''POST'' ''/web/prefs'' ''[]'' slash_user"
        "session_of slash_user" "[]" demo_state]
    by (simp add: demo_web_def demo_env_def)
qed


definition started :: "web_config \<times> web_state" where
  "started = start_web (\<lambda>_. []) demo_env [1] [2] [] [] demo_state"


text \<open>C9: after an administrator sets a user's password, a login of that user with it succeeds unless too many
  failed before, and the cookie it gets stands for that user and role for a day.\<close>

theorem new_password_logs_in:
  assumes "wc_auth cfg" "rq_path r = ''/web/users/password''" "is_admin (signed_in cfg ev r)" "rq_method r = ''POST''"
    and "decode_body (we_unicode ev) password_fields no_id_body (rq_body r) = Some b" "ib_password b \<noteq> []"
    and "we_writable ev (users_file cfg)" "stored_users cfg s us" "good_users us" "x \<in> set us" "us_id x = ib_id b"
    and "rq_path r2 = ''/login''" "rq_method r2 = ''POST''" "rq_form r2 ''username'' = us_name x"
    and "rq_form r2 ''password'' = ib_password b" "int64 (we_now ev2 + 86400)"
    and "fst (login_allow (web_client_ip r2) (we_now ev2) (ws_logins s))" "later \<le> we_now ev2 + 86400"
  shows "\<exists>token. fst (web_serve svg cfg ev2 r2 (snd (web_serve svg cfg ev r s))) = Redirect ''/'' (Some (token, 86400))
    \<and> verify_token (wc_secret cfg) later token = Some (session_of x)"
proof -
  let ?s = "snd (user_password cfg ev r s)" and ?x = "with_password ev (ib_password b) x"
  obtain us' where us': "stored_users cfg ?s us'" "good_users us'" "?x \<in> set us'"
    using password_changed [OF assms(3-11)] by blast
  have "ws_logins ?s = ws_logins s"
    by (simp add: user_password_def save_def write_file_def split: option.split)
  with assms(17) have ok: "fst (login_allow (web_client_ip r2) (we_now ev2) (ws_logins ?s))" by simp
  have "password_matches ?x (rq_form r2 ''password'')" by (simp add: assms(15) with_password_matches)
  note login_ok [OF assms(13) ok us' this]
  then have "fst (login cfg ev2 r2 ?s) = Redirect ''/'' (Some (make_token (wc_secret cfg) (we_now ev2) ?x, 86400))"
    by (simp add: assms(14))
  moreover have "CHR '':'' \<notin> set (us_role ?x)" "int64 (us_id ?x)"
    using assms(9,10) by (auto simp: good_users_def list_all_iff role_ok_def clean_user_def)
  then have "verify_token (wc_secret cfg) later (make_token (wc_secret cfg) (we_now ev2) ?x) = Some (session_of x)"
    using verify_made_token [OF _ _ assms(16), of ?x] assms(18) by simp
  ultimately show ?thesis
    using assms(1,2,12) by (simp add: web_serve_def route_login route_password)
qed

definition demo_admin :: user where
  "demo_admin = zero_user\<lparr>us_id := 1, us_name := ''admin'', us_role := ''admin''\<rparr>"

definition admin_state :: web_state where
  "admin_state = demo_state\<lparr>ws_files := (ws_files demo_state)(users_file demo_web := Some (save_users (Some [demo_admin])))\<rparr>"

definition password_request :: request where
  "password_request = key_request ''POST'' ''/web/users/password''
     (marshal (JObj [(''id'', doc_int 1), (''password'', JText ''pw'')]))"

definition login_request :: request where
  "login_request = (plain_request ''POST'' ''/login'')
     \<lparr>rq_form := (\<lambda>_. [])(''username'' := ''admin'', ''password'' := ''pw'')\<rparr>"

lemma password_request_body:
  "decode_body ascii_tables password_fields no_id_body (rq_body password_request) = Some \<lparr>ib_id = 1, ib_password = ''pw''\<rparr>"
proof -
  have "decode_first (rq_body password_request) = Some (JObj [(''id'', doc_int 1), (''password'', JText ''pw'')])"
    using marshal_print.print_decodes_first [of "JObj [(''id'', doc_int 1), (''password'', JText ''pw'')]" "[]"]
    by (simp add: password_request_def sanitize_ascii)
  then show ?thesis
    by (simp add: decode_body_def read_struct_def password_fields_def distinct_names int_setter_def text_setter_def
        doc_int_def parse_doc_int int64_def no_id_body_def)
qed

theorem new_password_logs_in_witness:
  "\<exists>token. fst (web_serve [] demo_web demo_env login_request
       (snd (web_serve [] demo_web demo_env password_request admin_state))) = Redirect ''/'' (Some (token, 86400))
    \<and> verify_token ''s'' 1700000100 token = Some (session_of demo_admin)"
proof -
  have users: "stored_users demo_web admin_state [demo_admin]" "good_users [demo_admin]"
    by (simp_all add: stored_users_def admin_state_def good_users_def clean_user_def demo_admin_def zero_user_def
        int64_def sanitize_ascii role_ok_def)
  have admin: "is_admin (signed_in demo_web demo_env password_request)"
    by (simp add: password_request_def demo_signed_in is_admin_def api_user_def)
  have free: "fst (login_allow (web_client_ip login_request) (we_now demo_env) (ws_logins admin_state))"
    by (simp add: login_allow_def admin_state_def demo_state_def new_login_limiter_def Let_def)
  have body: "decode_body (we_unicode demo_env) password_fields no_id_body (rq_body password_request)
      = Some \<lparr>ib_id = 1, ib_password = ''pw''\<rparr>"
    using password_request_body by (simp add: demo_env_def)
  have misc: "wc_auth demo_web" "wc_secret demo_web = ''s''" "we_now demo_env = 1700000000"
    by (simp_all add: demo_web_def demo_env_def)
  show ?thesis
    using new_password_logs_in [OF misc(1) _ admin _ body _ _ users, of demo_admin login_request demo_env 1700000100 "[]"]
      free misc
    by (simp add: password_request_def login_request_def plain_request_def demo_admin_def int64_def)
qed

text \<open>C25: posting node names replaces those it names, removes those it names with an empty text and keeps the
  rest, as read back from the file.\<close>

theorem node_names_are_merged:
  assumes "rq_path r = ''/web/node-names''" "rq_method r = ''POST''" "wc_auth cfg \<longrightarrow> signed_in cfg ev r \<noteq> None"
    and "decode_first (rq_body r) = Some v" "read_map v None = (True, Some changes)"
    and "existing_names (ws_files s (file_of cfg ''zaman-node-names.json'')) = Some m"
    and "we_writable ev (file_of cfg ''zaman-node-names.json'')"
  shows "names_in (ws_files (snd (web_serve svg cfg ev r s)) (file_of cfg ''zaman-node-names.json'')) k =
    (case map_of changes k of None \<Rightarrow> map_of m k | Some w \<Rightarrow> if w = [] then None else Some w)"
proof -
  have "web_route (wc_auth cfg) ''/web/node-names'' = NodeNames" by (simp add: web_route_def web_routes_def)
  then show ?thesis using node_names_post [OF assms(2-7)] assms(1) by (simp add: web_serve_def)
qed

theorem node_names_are_merged_witness:
  "names_in (ws_files (snd (web_serve [] demo_web demo_env
       (key_request ''POST'' ''/web/node-names'' (marshal (JObj [(''10.0.0.1'', JText ''A'')]))) demo_state))
     (file_of demo_web ''zaman-node-names.json'')) ''10.0.0.1'' = Some ''A''"
proof -
  let ?v = "JObj [(''10.0.0.1'', JText ''A'')]"
  have "decode_first (marshal ?v) = Some ?v"
    using marshal_print.print_decodes_first [of ?v "[]"] by (simp add: sanitize_ascii)
  moreover have "read_map ?v None = (True, Some [(''10.0.0.1'', ''A'')])"
    by (simp add: read_map_def entry_ok_def entry_text_def put_entry_def)
  moreover have "existing_names (ws_files demo_state (file_of demo_web ''zaman-node-names.json'')) = Some []"
    by (simp add: existing_names_def demo_state_def)
  ultimately show ?thesis
    using node_names_are_merged [of "key_request ''POST'' ''/web/node-names'' (marshal ?v)" demo_web demo_env ?v]
    by (simp add: demo_signed_in)
qed

text \<open>C26: a user reads back the preferences saved last, up to 16384 bytes, and no other user's reading changes,
  when the names have no slash.\<close>

theorem prefs_are_separate:
  assumes "rq_path r = ''/web/prefs''" "rq_method r = ''POST''" "signed_in cfg ev r = Some x"
    and "rq_path r2 = ''/web/prefs''" "rq_method r2 = ''GET''" "signed_in cfg ev2 r2 = Some y"
    and "CHR ''/'' \<notin> set (us_name x)" "CHR ''/'' \<notin> set (us_name y)" "we_writable ev (prefs_file cfg (us_name x))"
  shows "fst (web_serve svg cfg ev2 r2 (snd (web_serve svg cfg ev r s))) =
    (if us_name y = us_name x then web_json (take 16384 (rq_body r)) else fst (web_serve svg cfg ev2 r2 s))"
proof -
  have "web_route (wc_auth cfg) ''/web/prefs'' = Prefs" by (simp add: web_route_def web_routes_def)
  then have "snd (web_serve svg cfg ev r s) = write_file ev (prefs_file cfg (us_name x)) (take 16384 (rq_body r)) s"
    and "fst (web_serve svg cfg ev2 r2 t)
      = web_json (case ws_files t (prefs_file cfg (us_name y)) of None \<Rightarrow> ''{}'' | Some data \<Rightarrow> data)" for t
    using assms(1-6) by (simp_all add: web_serve_def prefs_def Let_def)
  then show ?thesis
    using assms(9) prefs_file_eq [OF assms(8,7), of cfg] by (simp add: write_file_def)
qed

theorem prefs_are_separate_witness:
  "fst (web_serve [] demo_web demo_env (cookie_request ''GET'' ''/web/prefs'' [] colon_user)
     (snd (web_serve [] demo_web demo_env (cookie_request ''POST'' ''/web/prefs'' ''{}'' colon_user) demo_state)))
   = web_json ''{}''"
proof -
  have user: "signed_in demo_web demo_env (cookie_request m ''/web/prefs'' b colon_user) = Some (session_of colon_user)" for m b
    by (rule demo_signed_in) (simp_all add: colon_user_def zero_user_def int64_def)
  have "us_name (session_of colon_user) = ''a:b''" by (simp add: session_of_def colon_user_def)
  then show ?thesis
    using prefs_are_separate [of "cookie_request ''POST'' ''/web/prefs'' ''{}'' colon_user" demo_web demo_env
        "session_of colon_user" "cookie_request ''GET'' ''/web/prefs'' [] colon_user" demo_env "session_of colon_user" "[]" demo_state]
    by (simp add: user)
qed

end
