(* ===== verification/Spec2Isabelle.thy ===== *)
theory Spec2Isabelle
  imports Json Cache Pipeline Writer Limiter Api WebApp
begin

text \<open>
  Zaman captures SIP traffic, stores it in PostgreSQL and reports on it. This development models
  its two Go programs: the core (\<^verbatim>\<open>src/core-go\<close>), which receives SIP and HEP packets, keeps
  counters and a ring of recent records, writes records to the database in batches, builds
  reports from it and serves them over HTTP; and the web server (\<^verbatim>\<open>src/web/main.go\<close>), which
  keeps users, sessions and a few files, and passes requests for the API on to the core.

  \<^bold>\<open>How the parts interact.\<close> A datagram, or the packets of a HEP stream (\<open>Framing\<close>, \<open>Ingest\<close>), are decoded
  (\<open>Hep\<close>, \<open>Sip\<close>), counted (\<open>Metrics\<close>), turned into a JSON record (\<open>Capture\<close>, \<open>Json\<close>, \<open>Base64\<close>), pushed
  to the ring (\<open>Ring\<close>) and sent to the database channel. The writer (\<open>Writer\<close>) collects records
  into batches of up to 100 and stores them (\<open>Store\<close>); a ticker creates and drops daily
  partitions and old calls (\<open>Calendar\<close>). \<open>Reports\<close> reads the tables through the filters of \<open>Sql\<close>; the
  cache worker (\<open>Cache\<close>) keeps six reports ready; \<open>Alerts\<close> reads one of them back. \<open>Api\<close> routes a
  request to its handler behind the rate limit (\<open>Limiter\<close>) and the API key (\<open>Http\<close>). \<open>WebApp\<close> puts
  the sessions of \<open>Auth\<close> in front of it.

  \<^bold>\<open>Theories and code.\<close>
  \<^item> Go's library as the source uses it: \<open>GoStrings\<close> (\<^verbatim>\<open>strings\<close>, \<^verbatim>\<open>strconv\<close>, \<^verbatim>\<open>net.SplitHostPort\<close>), \<open>Utf8\<close>
    (runes, case folding), \<open>Base64\<close>, \<open>Json\<close> and \<open>Document\<close> (\<^verbatim>\<open>jesc\<close>, reading JSON, \<^verbatim>\<open>encoding/json\<close>'s printing),
    \<open>Structs\<close> (reading into structures and maps), \<open>Sha256\<close> (SHA-256, HMAC, hex). Strings are byte
    lists; 64-bit integers are words where they may wrap and \<open>int\<close> with a range elsewhere.
  \<^item> \<open>Config\<close>, \<open>Metrics\<close>, \<open>Ring\<close>: \<^verbatim>\<open>main.go\<close>; \<open>Cache\<close>: \<^verbatim>\<open>cache.go\<close>; \<open>Sip\<close>, \<open>Capture\<close>: \<^verbatim>\<open>sip.go\<close>; \<open>Hep\<close>: \<^verbatim>\<open>hep.go\<close>.
  \<^item> \<open>Framing\<close>, \<open>Ingest\<close>, \<open>Pipeline\<close>: the workers of \<^verbatim>\<open>sip.go\<close> and \<^verbatim>\<open>hep.go\<close> as functions on one state
    (metrics, ring, channel) and as an inductive step relation with its reachable states.
  \<^item> \<open>Calendar\<close>, \<open>Store\<close>, \<open>Writer\<close>: \<^verbatim>\<open>db.go\<close>. Tables are lists and maps; an SQL statement is its effect on
    them; what the database accepts or refuses is a parameter.
  \<^item> \<open>Sql\<close>, \<open>Reports\<close>: \<^verbatim>\<open>reports.go\<close>. The texts of the WHERE clauses, a lexer for them, and each report
    builder as a JSON document computed from one reading of the tables (\<open>table_scan\<close>).
  \<^item> \<open>Qos\<close>: \<^verbatim>\<open>qos.go\<close>; \<open>Probe\<close>: \<^verbatim>\<open>probe.go\<close>; \<open>Alerts\<close>: \<^verbatim>\<open>alerts.go\<close>; \<open>Http\<close>, \<open>Limiter\<close>, \<open>Api\<close>: \<^verbatim>\<open>api.go\<close>.
  \<^item> \<open>Auth\<close>, \<open>WebApp\<close>: \<^verbatim>\<open>web/main.go\<close>. Files are a map from paths to contents.

  \<^bold>\<open>What the lemmas show.\<close> Locales state the contracts the parts rely on, each interpreted on the
  model: escaping (\<open>json_escape\<close>: what is printed is read back, for \<open>jesc\<close> and for Go's encoder), rate
  limiting in a window (\<open>window_limiter\<close>, for both limiters), framing of a byte stream, and more in
  their theories. On them rest the round trips of records, packets, tokens, files and reports; the
  invariants of the pipeline, the writer and the users; the refinements of the ring, the call
  table and the cache to plain specifications; what each filter selects; which requests are
  answered and which refused.

  \<^bold>\<open>Bounds and fuel.\<close> The JSON reader takes twice the length of its text plus two as fuel, which is
  always enough (\<open>fuel_enough\<close>). \<open>serve\<close> is a partial function because one handler calls the
  multiplexer on the same request; \<open>request_answered_iff\<close> says exactly when it returns. All other
  loops are total functions. Floating-point results of \<^verbatim>\<open>qos.go\<close> are integers in units in which the
  computation is exact.

  \<^bold>\<open>Not modelled.\<close> Sockets, timeouts, TLS and goroutine scheduling: arrivals and clock readings are
  arguments, operations under one lock are atomic, and requests to the web server are handled one
  after the other. Path cleaning and slash redirects of \<^verbatim>\<open>ServeMux\<close>. The schema set-up of \<^verbatim>\<open>dbInit\<close> and
  the planner of PostgreSQL. The login page, the icon and the static files of the browser
  application (HTML and JavaScript), whose texts are arguments. Logging. Unicode case tables,
  regular expressions of PostgreSQL and the floating-point value of number literals beyond
  \<open>2^53\<close> are parameters.
\<close>

section \<open>The web server in front of the core\<close>

lemma serve_handled:
  assumes "key_accepted cfg r" "route (rq_path r) \<notin> {Stats, Static}"
    and "fst (api_allow (rate_limit cfg) (api_client_ip r (trusted_proxy cfg)) (ae_sec ev) (as_limiter s))"
  shows "serve cfg ev r s = Some (handle cfg ev (route (rq_path r)) r (s\<lparr>as_limiter :=
     snd (api_allow (rate_limit cfg) (api_client_ip r (trusted_proxy cfg)) (ae_sec ev) (as_limiter s))\<rparr>))"
  using assms by (subst serve.simps) (auto simp: Let_def rate_limited_def split: prod.split)

lemma core_request_path [simp]: "rq_path (core_request cfg r) = rq_path r"
  by (simp add: core_request_def Let_def)

lemma core_request_accepted: "api_key ccfg = wc_key cfg \<Longrightarrow> key_accepted ccfg (core_request cfg r)"
  by (simp add: key_accepted_def request_key_def core_request_def Let_def)

lemma route_core_api:
  assumes "has_prefix path ''/api/''"
  shows "web_route auth path = CoreApi"
proof -
  have "map_of web_routes path = None"
  proof (rule ccontr)
    assume "map_of web_routes path \<noteq> None"
    then obtain e where "(path, e) \<in> set web_routes" by (auto dest: map_of_SomeD)
    with assms show False by (auto simp: web_routes_def)
  qed
  with assms show ?thesis by (simp add: web_route_def)
qed

text \<open>C7: whoever is signed in, in whatever role, reaches every handler of the core with the server's own key:
  a request below \<open>/api/\<close> that the rate limit lets pass is carried out, the deletion of calls included.\<close>

theorem any_session_reaches_every_handler:
  assumes "api_key ccfg = wc_key cfg" "has_prefix (rq_path r) ''/api/''" "signed_in cfg ev r = Some x"
    and "route (rq_path r) \<notin> {Stats, Static}"
    and "fst (api_allow (rate_limit ccfg) (api_client_ip (core_request cfg r) (trusted_proxy ccfg)) (ae_sec cev) (as_limiter cs))"
  shows "web_serve svg cfg ev r s = (ToCore (core_request cfg r), s)
    \<and> (\<exists>rl. serve ccfg cev (core_request cfg r) cs =
          Some (handle ccfg cev (route (rq_path r)) (core_request cfg r) (cs\<lparr>as_limiter := rl\<rparr>)))"
  using serve_handled [OF core_request_accepted [OF assms(1)], of r cev cs] assms
  by (simp add: web_serve_def route_core_api core_api_def) blast

definition demo_core :: config where
  "demo_core = (load_config (\<lambda>_. []) [])\<lparr>api_key := ''k'', rate_limit := 0\<rparr>"

theorem any_session_reaches_every_handler_witness:
  "\<forall>cev cs. \<exists>rl. serve demo_core cev (core_request demo_web (cookie_request ''POST'' ''/api/delete'' [] colon_user)) cs =
     Some (handle demo_core cev Delete (core_request demo_web (cookie_request ''POST'' ''/api/delete'' [] colon_user))
       (cs\<lparr>as_limiter := rl\<rparr>))"
proof (intro allI)
  fix cev cs
  let ?r = "cookie_request ''POST'' ''/api/delete'' [] colon_user"
  have "signed_in demo_web demo_env ?r = Some (session_of colon_user)"
    by (rule demo_signed_in) (simp_all add: colon_user_def zero_user_def int64_def)
  moreover have "api_key demo_core = wc_key demo_web" "rate_limit demo_core \<le> 0"
    by (simp_all add: demo_core_def demo_web_def)
  ultimately show "\<exists>rl. serve demo_core cev (core_request demo_web ?r) cs =
      Some (handle demo_core cev Delete (core_request demo_web ?r) (cs\<lparr>as_limiter := rl\<rparr>))"
    using any_session_reaches_every_handler [of demo_core demo_web ?r demo_env "session_of colon_user" cev cs]
    by (simp add: route_delete api_allow_def)
qed

end
